theory Spec2Isabelle
  imports Complex_Main "HOL-Library.Word" "HOL-Library.Sublist"
begin

unbundle bit_operations_syntax

section \<open>JavaScript strings and the built-ins that App.tsx calls\<close>

text \<open>
  A JavaScript string is a sequence of UTF-16 code units. The methods \<open>split\<close>,
  \<open>includes\<close>, \<open>trim\<close>, \<open>replace\<close> and \<open>join\<close> all work on code units, so a
  string is a list of 16-bit words here.
\<close>

type_synonym jsstring = "16 word list"

definition newline :: "16 word" where
  "newline = 0x0A"

definition quote :: "16 word" where
  "quote = 0x22"

text \<open>The caption marker of \<open>copyCaptions\<close>: an opening bracket, the two Hangul
  syllables U+C790 and U+B9C9, and a closing bracket.\<close>

definition marker :: jsstring where
  "marker = [0x5B, 0xC790, 0xB9C9, 0x5D]"

text \<open>\<open>s.includes(m)\<close>: \<open>m\<close> occurs in \<open>s\<close> as a run of consecutive code units.\<close>

fun includes_js :: "'a list \<Rightarrow> 'a list \<Rightarrow> bool" where
  "includes_js [] m = (m = [])"
| "includes_js (c # cs) m = (prefix m (c # cs) \<or> includes_js cs m)"

text \<open>
  \<open>s.split(sep)\<close> with a string separator: the scan of ECMAScript's
  \<open>String.prototype.split\<close>. \<open>cur\<close> is the piece collected since the last match;
  at a position where \<open>sep\<close> matches the piece is closed and the scan goes on behind
  the match, otherwise the code unit joins the piece. The end of the input closes the
  last piece. With the empty separator JavaScript yields the single code units.
\<close>

function split_from :: "'a list \<Rightarrow> 'a list \<Rightarrow> 'a list \<Rightarrow> 'a list list" where
  "split_from sep cur [] = [cur]"
| "split_from sep cur (c # cs) =
     (if sep \<noteq> [] \<and> prefix sep (c # cs)
      then cur # split_from sep [] (drop (length sep) (c # cs))
      else split_from sep (cur @ [c]) cs)"
  by pat_completeness auto
termination
  by (relation "measure (\<lambda>(sep, cur, s). length s)") auto

definition split_js :: "'a list \<Rightarrow> 'a list \<Rightarrow> 'a list list" where
  "split_js sep s = (if sep = [] then map (\<lambda>c. [c]) s else split_from sep [] s)"

text \<open>\<open>parts.join(sep)\<close>.\<close>

fun join_js :: "'a list \<Rightarrow> 'a list list \<Rightarrow> 'a list" where
  "join_js sep [] = []"
| "join_js sep [x] = x"
| "join_js sep (x # y # ys) = x @ sep @ join_js sep (y # ys)"

text \<open>
  \<open>s.trim()\<close> removes, at both ends, the code units of ECMAScript's WhiteSpace and
  LineTerminator productions.
\<close>

definition isWhiteSpace :: "16 word \<Rightarrow> bool" where
  "isWhiteSpace c \<longleftrightarrow>
     c = 0x09 \<or> c = 0x0A \<or> c = 0x0B \<or> c = 0x0C \<or> c = 0x0D \<or> c = 0x20 \<or> c = 0xA0 \<or>
     c = 0x1680 \<or> (0x2000 \<le> c \<and> c \<le> 0x200A) \<or> c = 0x2028 \<or> c = 0x2029 \<or>
     c = 0x202F \<or> c = 0x205F \<or> c = 0x3000 \<or> c = 0xFEFF"

definition trim_js :: "jsstring \<Rightarrow> jsstring" where
  "trim_js s = rev (dropWhile isWhiteSpace (rev (dropWhile isWhiteSpace s)))"

text \<open>
  \<open>s.replace(/^"|"$/g, '')\<close>: the global replace deletes every match. The first
  alternative matches a quote at index 0 only, the second a quote that is the last code
  unit only (there is no \<open>m\<close> flag); after a match at index 0 the search resumes at
  index 1, so a string that is one single quote loses it once.
\<close>

definition replace_quotes :: "jsstring \<Rightarrow> jsstring" where
  "replace_quotes s =
     (let s1 = (case s of [] \<Rightarrow> [] | c # cs \<Rightarrow> if c = quote then cs else s)
      in if s1 \<noteq> [] \<and> last s1 = quote then butlast s1 else s1)"

section \<open>The data model (types.ts and the state of App)\<close>

datatype ContentCategory = QUOTES | SELF_IMPROVEMENT

datatype VisualMode = REALISTIC | ANIMATION | OIL_PAINTING | ORIENTAL_PAINTING

record VisualScene =
  sceneNumber :: int
  description :: jsstring
  prompt :: jsstring

text \<open>The field \<open>id\<close> is written \<open>id'\<close>, the name \<open>id\<close> being the identity of HOL.\<close>

record ShortsConcept =
  id' :: jsstring
  title :: jsstring
  hook :: jsstring
  detailedScript :: jsstring
  visualScenes :: "VisualScene list"
  visualStyle :: jsstring
  targetAudience :: jsstring
  personalizedReason :: jsstring

text \<open>\<open>interface SavedConcept extends ShortsConcept\<close>.\<close>

record SavedConcept = ShortsConcept +
  savedAt :: int
  category :: ContentCategory

text \<open>An \<open>AudioContext\<close> object, known by its identity.\<close>

type_synonym audio_context = nat

text \<open>
  The hooks of \<open>App\<close>: one field for each \<open>useState\<close> and for the \<open>useRef\<close>. The
  state \<open>keywords\<close> is written \<open>keywords'\<close>. A concept selected from the library is
  held in \<open>selectedConcept\<close> by its \<open>ShortsConcept\<close> fields: the two further fields
  it carries in the source are overwritten wherever the selection is read as a
  \<open>SavedConcept\<close> (the spread in \<open>handleSaveConcept\<close>).
\<close>

record app =
  category :: ContentCategory
  visualMode :: VisualMode
  philosopherName :: jsstring
  keywords' :: jsstring
  loading :: bool
  concepts :: "ShortsConcept list"
  selectedConcept :: "ShortsConcept option"
  previewImage :: "jsstring option"
  imageLoading :: bool
  audioLoading :: bool
  savedConcepts :: "SavedConcept list"
  showSaved :: bool
  audioContextRef :: "audio_context option"

definition initial :: app where
  "initial = \<lparr>category = QUOTES, visualMode = REALISTIC, philosopherName = [],
     keywords' = [], loading = False, concepts = [], selectedConcept = None,
     previewImage = None, imageLoading = False, audioLoading = False,
     savedConcepts = [], showSaved = False, audioContextRef = None\<rparr>"

text \<open>
  What a handler does besides updating the state: the dialogs it opens, the lines it
  logs, the service calls it makes and the objects it creates.
\<close>

datatype alert =
    NeedInput | RecommendFailed | AudioFailed | NoCaptions | CaptionsCopied
  | AlreadySaved | Saved

datatype voice = Kore | Puck

datatype effect =
    Alert alert
  | ConsoleError
  | GetConceptRecommendations ContentCategory jsstring VisualMode jsstring
  | GenerateBackgroundImage jsstring VisualMode
  | GenerateSpeech jsstring voice
  | NewAudioContext audio_context
  | DecodeAudioData "8 word list" audio_context nat nat
  | SourceStart audio_context
  | ClipboardWriteText jsstring

text \<open>
  An \<open>async\<close> handler runs up to its \<open>await\<close> and leaves a task behind: the rest of
  the handler, with the variables its closure holds. The task runs when the promise
  settles.
\<close>

datatype task =
    AwaitRecommendations
  | AwaitImage ShortsConcept
  | AwaitSpeech
  | AwaitDecode audio_context

type_synonym reaction = "app \<times> effect list \<times> task list"

text \<open>How a promise settles: it is rejected, or fulfilled with a value.\<close>

datatype 'a settled = Rejected | Fulfilled 'a

section \<open>The handlers of App.tsx\<close>

subsection \<open>handleRecommend\<close>

text \<open>
  The guard tests the trimmed inputs; \<open>!x\<close> of a string holds when it is empty. The
  alert stands for the rejection of the input, and the handler returns before any call
  to the service.
\<close>

definition handleRecommend :: "app \<Rightarrow> reaction" where
  "handleRecommend s =
     (if trim_js (keywords' s) = [] \<and>
         (category s = SELF_IMPROVEMENT \<or> trim_js (philosopherName s) = [])
      then (s, [Alert NeedInput], [])
      else (s\<lparr>loading := True, concepts := [], selectedConcept := None,
              previewImage := None, showSaved := False\<rparr>,
            [GetConceptRecommendations (category s) (keywords' s) (visualMode s)
               (philosopherName s)],
            [AwaitRecommendations]))"

fun handleRecommend_settled :: "ShortsConcept list settled \<Rightarrow> app \<Rightarrow> reaction" where
  "handleRecommend_settled (Fulfilled cs) s = (s\<lparr>concepts := cs, loading := False\<rparr>, [], [])"
| "handleRecommend_settled Rejected s =
     (s\<lparr>loading := False\<rparr>, [ConsoleError, Alert RecommendFailed], [])"

subsection \<open>handleSelectConcept\<close>

text \<open>\<open>concept.visualScenes[0]?.prompt || concept.title\<close>: the left operand is
  \<open>undefined\<close> without a first scene, and an empty prompt is falsy as well.\<close>

definition imagePrompt :: "ShortsConcept \<Rightarrow> jsstring" where
  "imagePrompt concept =
     (case visualScenes concept of
        [] \<Rightarrow> title concept
      | sc # _ \<Rightarrow> if prompt sc = [] then title concept else prompt sc)"

definition handleSelectConcept :: "ShortsConcept \<Rightarrow> app \<Rightarrow> reaction" where
  "handleSelectConcept concept s =
     (s\<lparr>selectedConcept := Some concept, previewImage := None, imageLoading := True\<rparr>,
      [GenerateBackgroundImage (imagePrompt concept) (visualMode s)],
      [AwaitImage concept])"

text \<open>The rest of the handler, behind the \<open>await\<close>. Its closure holds \<open>concept\<close>;
  the code does not read it again.\<close>

fun handleSelectConcept_settled ::
  "ShortsConcept \<Rightarrow> jsstring option settled \<Rightarrow> app \<Rightarrow> reaction" where
  "handleSelectConcept_settled concept (Fulfilled img) s =
     (s\<lparr>previewImage := img, imageLoading := False\<rparr>, [], [])"
| "handleSelectConcept_settled concept Rejected s =
     (s\<lparr>imageLoading := False\<rparr>, [ConsoleError], [])"

text \<open>What the phone mockup shows as its background (the JSX of the preview).\<close>

definition displayedImage :: "app \<Rightarrow> jsstring option" where
  "displayedImage s =
     (if selectedConcept s = None \<or> imageLoading s then None
      else case previewImage s of
             None \<Rightarrow> None
           | Some url \<Rightarrow> if url = [] then None else Some url)"

subsection \<open>handleGenerateAudio\<close>

definition handleGenerateAudio :: "app \<Rightarrow> reaction" where
  "handleGenerateAudio s =
     (case selectedConcept s of
        None \<Rightarrow> (s, [], [])
      | Some c \<Rightarrow>
          (s\<lparr>audioLoading := True\<rparr>,
           [GenerateSpeech (hook c) (if category s = QUOTES then Kore else Puck)],
           [AwaitSpeech]))"

text \<open>
  The handler between its two \<open>await\<close>s. Besides the settled promise it takes what
  the two calls made here return: \<open>ctor\<close> is the object that \<open>new AudioContext\<close>
  yields (\<open>None\<close> when the constructor throws) and \<open>bytes\<close> is the result of
  \<open>decodeBase64(data)\<close> (\<open>None\<close> when it throws). Each is used only where the code
  makes the call. An exception runs the \<open>catch\<close> and the \<open>finally\<close> block.
\<close>

definition audioFailure :: "app \<Rightarrow> effect list \<Rightarrow> reaction" where
  "audioFailure s es = (s\<lparr>audioLoading := False\<rparr>, es @ [ConsoleError, Alert AudioFailed], [])"

definition decodeWith ::
  "audio_context \<Rightarrow> 8 word list option \<Rightarrow> app \<Rightarrow> effect list \<Rightarrow> reaction" where
  "decodeWith ctx bytes s es =
     (case bytes of
        None \<Rightarrow> audioFailure s es
      | Some decodedBytes \<Rightarrow>
          (s, es @ [DecodeAudioData decodedBytes ctx 24000 1], [AwaitDecode ctx]))"

definition handleGenerateAudio_spoken ::
  "jsstring option settled \<Rightarrow> audio_context option \<Rightarrow> 8 word list option \<Rightarrow> app \<Rightarrow> reaction"
  where
  "handleGenerateAudio_spoken r ctor bytes s =
     (case r of
        Rejected \<Rightarrow> audioFailure s []
      | Fulfilled data \<Rightarrow>
          if data = None \<or> data = Some [] then (s\<lparr>audioLoading := False\<rparr>, [], [])
          else (case audioContextRef s of
                  Some ctx \<Rightarrow> decodeWith ctx bytes s []
                | None \<Rightarrow>
                    (case ctor of
                       None \<Rightarrow> audioFailure s []
                     | Some fresh \<Rightarrow>
                         decodeWith fresh bytes (s\<lparr>audioContextRef := Some fresh\<rparr>)
                           [NewAudioContext fresh])))"

text \<open>The rest of the handler, behind \<open>await decodeAudioData\<close>; \<open>ctx\<close> is the local
  constant of the closure.\<close>

fun handleGenerateAudio_decoded :: "audio_context \<Rightarrow> unit settled \<Rightarrow> app \<Rightarrow> reaction" where
  "handleGenerateAudio_decoded ctx (Fulfilled _) s =
     (s\<lparr>audioLoading := False\<rparr>, [SourceStart ctx], [])"
| "handleGenerateAudio_decoded ctx Rejected s = audioFailure s []"

subsection \<open>copyCaptions\<close>

text \<open>The callback of \<open>map\<close>: \<open>parts[1]\<close> is the piece between the first match of
  the marker and the next one (or the end of the line).\<close>

definition captionOfLine :: "jsstring \<Rightarrow> jsstring" where
  "captionOfLine l =
     (let parts = split_js marker l
      in if length parts > 1 then replace_quotes (trim_js (parts ! 1)) else [])"

text \<open>The value of the constant \<open>captions\<close> for a script.\<close>

definition captions :: "jsstring \<Rightarrow> jsstring" where
  "captions script =
     join_js [newline]
       (filter (\<lambda>l. l \<noteq> [])
          (map captionOfLine
             (filter (\<lambda>l. includes_js l marker) (split_js [newline] script))))"

definition copyCaptions :: "app \<Rightarrow> reaction" where
  "copyCaptions s =
     (case selectedConcept s of
        None \<Rightarrow> (s, [], [])
      | Some c \<Rightarrow>
          (let text = captions (detailedScript c)
           in if text = [] then (s, [Alert NoCaptions], [])
              else (s, [ClipboardWriteText text, Alert CaptionsCopied], [])))"

subsection \<open>handleSaveConcept, handleDeleteSaved and the clear button\<close>

text \<open>\<open>now\<close> is the value of \<open>Date.now()\<close>.\<close>

definition newSaved :: "ShortsConcept \<Rightarrow> int \<Rightarrow> ContentCategory \<Rightarrow> SavedConcept" where
  "newSaved c now cat =
     \<lparr>id' = id' c, title = title c, hook = hook c, detailedScript = detailedScript c,
      visualScenes = visualScenes c, visualStyle = visualStyle c,
      targetAudience = targetAudience c, personalizedReason = personalizedReason c,
      savedAt = now, category = cat\<rparr>"

definition handleSaveConcept :: "int \<Rightarrow> app \<Rightarrow> reaction" where
  "handleSaveConcept now s =
     (case selectedConcept s of
        None \<Rightarrow> (s, [], [])
      | Some sel \<Rightarrow>
          if find (\<lambda>c. id' c = id' sel) (savedConcepts s) \<noteq> None
          then (s, [Alert AlreadySaved], [])
          else (s\<lparr>savedConcepts := newSaved sel now (category s) # savedConcepts s\<rparr>,
                [Alert Saved], []))"

text \<open>\<open>confirmed\<close> is the answer of the \<open>confirm\<close> dialog.\<close>

definition handleDeleteSaved :: "jsstring \<Rightarrow> bool \<Rightarrow> app \<Rightarrow> reaction" where
  "handleDeleteSaved ident confirmed s =
     (if confirmed
      then (let s1 = s\<lparr>savedConcepts := filter (\<lambda>c. id' c \<noteq> ident) (savedConcepts s)\<rparr>
            in if (case selectedConcept s of None \<Rightarrow> False | Some sel \<Rightarrow> id' sel = ident)
               then (s1\<lparr>selectedConcept := None, previewImage := None\<rparr>, [], [])
               else (s1, [], []))
      else (s, [], []))"

definition clearSaved :: "bool \<Rightarrow> app \<Rightarrow> reaction" where
  "clearSaved confirmed s = (if confirmed then (s\<lparr>savedConcepts := []\<rparr>, [], []) else (s, [], []))"

subsection \<open>The effect that loads the library on mount\<close>

text \<open>
  \<open>JSON.parse\<close> returns a value of any shape. \<open>JEntries\<close> is an array of
  \<open>SavedConcept\<close> objects; the other constructors are the values that are not one.
\<close>

datatype json_value =
    JEntries "SavedConcept list"
  | JNull
  | JBoolean bool
  | JNumber rat
  | JString jsstring
  | JOtherArray
  | JOtherObject

datatype parse_outcome = SyntaxError | Parsed json_value

text \<open>
  The value that the state \<open>savedConcepts\<close> holds after the effect, with what the
  effect logs. \<open>stored\<close> is what \<open>localStorage.getItem\<close> returns and \<open>parsed\<close>
  what \<open>JSON.parse(stored)\<close> does; \<open>if (stored)\<close> fails for \<open>null\<close> and for the
  empty string. The state starts as the empty array, and whatever \<open>JSON.parse\<close>
  returns goes to \<open>setSavedConcepts\<close> as it is.
\<close>

definition loadSaved :: "jsstring option \<Rightarrow> parse_outcome \<Rightarrow> json_value \<times> effect list" where
  "loadSaved stored parsed =
     (case stored of
        None \<Rightarrow> (JEntries [], [])
      | Some text \<Rightarrow>
          if text = [] then (JEntries [], [])
          else (case parsed of
                  SyntaxError \<Rightarrow> (JEntries [], [ConsoleError])
                | Parsed v \<Rightarrow> (v, [])))"

text \<open>
  The render that follows. With the library panel closed and no concept selected, as
  they are when the page starts, the JSX reads the state \<open>savedConcepts\<close> once: the
  label of the library button holds \<open>savedConcepts.length\<close>. Reading a property of
  \<open>null\<close> throws a TypeError; of any other value it yields a number or \<open>undefined\<close>.
  The result is the exception of the render, if there is one.
\<close>

datatype js_error = TypeError

definition renderAfterMount :: "json_value \<Rightarrow> js_error option" where
  "renderAfterMount v = (if v = JNull then Some TypeError else None)"

section \<open>The event loop\<close>

text \<open>
  One session of the page: the state of \<open>App\<close>, the tasks whose promise has not
  settled yet (oldest first), and the effects so far (oldest first).
\<close>

record session =
  ui :: app
  inflight :: "task list"
  effects :: "effect list"

definition start :: session where
  "start = \<lparr>ui = initial, inflight = [], effects = []\<rparr>"

text \<open>
  How a session begins. The effect that loads the library runs once, when \<open>App\<close> is
  mounted and before any event, so it belongs to the first state of a session and is
  no event of it. After the effect the page is rendered again. An exception in that
  render, with no error boundary around \<open>App\<close>, makes React take the whole page away:
  the session is \<open>Crashed\<close>. Otherwise the session is \<open>Running\<close> with the array of
  saved concepts that was loaded, or the page shows while the state holds a value that
  is no array of saved concepts (\<open>Untyped\<close>); what the handlers and the later renders
  make of such a value is not followed here.
\<close>

datatype startup = Running session | Untyped json_value | Crashed js_error

definition mount :: "jsstring option \<Rightarrow> parse_outcome \<Rightarrow> startup" where
  "mount stored parsed =
     (case loadSaved stored parsed of
        (v, es) \<Rightarrow>
          (case renderAfterMount v of
             Some e \<Rightarrow> Crashed e
           | None \<Rightarrow>
               (case v of
                  JEntries entries \<Rightarrow>
                    Running \<lparr>ui = initial\<lparr>savedConcepts := entries\<rparr>, inflight = [],
                             effects = es\<rparr>
                | _ \<Rightarrow> Untyped v)))"


text \<open>
  What can happen next: the user acts on a control, or the promise of the \<open>n\<close>-th task
  in flight settles. The events of the inputs carry the value entered, \<open>ClickSave\<close>
  the clock, \<open>ClickDelete\<close> and \<open>ClickClear\<close> the answer to the dialog, and
  \<open>SpeechSettle\<close> the results of the two calls of \<open>handleGenerateAudio_spoken\<close>.
  An event runs its handler whether or not the page shows the control and has it
  enabled at that moment (the buttons for the recommendation and for the audio are
  disabled while their request is in flight): the runs of the page are among the runs
  of the model.
\<close>

datatype event =
    SetCategory ContentCategory
  | SetVisualMode VisualMode
  | SetPhilosopherName jsstring
  | SetKeywords jsstring
  | ToggleSaved
  | CloseSaved
  | ClickRecommend
  | ClickConcept ShortsConcept
  | ClickSaved SavedConcept
  | ClickAudio
  | ClickCopyCaptions
  | ClickSave int
  | ClickDelete jsstring bool
  | ClickClear bool
  | RecommendationsSettle nat "ShortsConcept list settled"
  | ImageSettle nat "jsstring option settled"
  | SpeechSettle nat "jsstring option settled" "audio_context option" "8 word list option"
  | DecodeSettle nat "unit settled"

definition react :: "reaction \<Rightarrow> session \<Rightarrow> session" where
  "react r w =
     (case r of (s, es, ts) \<Rightarrow>
        w\<lparr>ui := s, inflight := inflight w @ ts, effects := effects w @ es\<rparr>)"

text \<open>The \<open>n\<close>-th task leaves the list and its continuation \<open>k\<close> runs; nothing
  happens when there is no such task or when it awaits a promise of another kind.\<close>

definition settle :: "nat \<Rightarrow> (task \<Rightarrow> reaction option) \<Rightarrow> session \<Rightarrow> session" where
  "settle n k w =
     (if n < length (inflight w)
      then (case k (inflight w ! n) of
              None \<Rightarrow> w
            | Some r \<Rightarrow> react r (w\<lparr>inflight := take n (inflight w) @ drop (Suc n) (inflight w)\<rparr>))
      else w)"

fun step :: "event \<Rightarrow> session \<Rightarrow> session" where
  "step (SetCategory c) w = w\<lparr>ui := (ui w)\<lparr>category := c\<rparr>\<rparr>"
| "step (SetVisualMode m) w = w\<lparr>ui := (ui w)\<lparr>visualMode := m\<rparr>\<rparr>"
| "step (SetPhilosopherName n) w = w\<lparr>ui := (ui w)\<lparr>philosopherName := n\<rparr>\<rparr>"
| "step (SetKeywords k) w = w\<lparr>ui := (ui w)\<lparr>keywords' := k\<rparr>\<rparr>"
| "step ToggleSaved w = w\<lparr>ui := (ui w)\<lparr>showSaved := \<not> showSaved (ui w)\<rparr>\<rparr>"
| "step CloseSaved w = w\<lparr>ui := (ui w)\<lparr>showSaved := False\<rparr>\<rparr>"
| "step ClickRecommend w = react (handleRecommend (ui w)) w"
| "step (ClickConcept c) w = react (handleSelectConcept c (ui w)) w"
| "step (ClickSaved sc) w =
     react (case handleSelectConcept (ShortsConcept.truncate sc) (ui w) of
              (s, r) \<Rightarrow> (s\<lparr>category := SavedConcept.category sc\<rparr>, r)) w"
| "step ClickAudio w = react (handleGenerateAudio (ui w)) w"
| "step ClickCopyCaptions w = react (copyCaptions (ui w)) w"
| "step (ClickSave now) w = react (handleSaveConcept now (ui w)) w"
| "step (ClickDelete ident confirmed) w = react (handleDeleteSaved ident confirmed (ui w)) w"
| "step (ClickClear confirmed) w = react (clearSaved confirmed (ui w)) w"
| "step (RecommendationsSettle n r) w =
     settle n (\<lambda>t. case t of AwaitRecommendations \<Rightarrow> Some (handleRecommend_settled r (ui w))
                           | _ \<Rightarrow> None) w"
| "step (ImageSettle n r) w =
     settle n (\<lambda>t. case t of AwaitImage c \<Rightarrow> Some (handleSelectConcept_settled c r (ui w))
                           | _ \<Rightarrow> None) w"
| "step (SpeechSettle n r ctor bytes) w =
     settle n (\<lambda>t. case t of AwaitSpeech \<Rightarrow> Some (handleGenerateAudio_spoken r ctor bytes (ui w))
                           | _ \<Rightarrow> None) w"
| "step (DecodeSettle n r) w =
     settle n (\<lambda>t. case t of AwaitDecode ctx \<Rightarrow> Some (handleGenerateAudio_decoded ctx r (ui w))
                           | _ \<Rightarrow> None) w"

fun run :: "event list \<Rightarrow> session \<Rightarrow> session" where
  "run [] w = w"
| "run (e # es) w = run es (step e w)"

section \<open>The wording of the specification, for comparison\<close>

text \<open>The substring following the first occurrence of \<open>m\<close> (empty without one), and
  the text in front of the first occurrence (everything without one).\<close>

fun after_first :: "'a list \<Rightarrow> 'a list \<Rightarrow> 'a list" where
  "after_first m [] = []"
| "after_first m (c # cs) =
     (if prefix m (c # cs) then drop (length m) (c # cs) else after_first m cs)"

fun before_first :: "'a list \<Rightarrow> 'a list \<Rightarrow> 'a list" where
  "before_first m [] = []"
| "before_first m (c # cs) = (if prefix m (c # cs) then [] else c # before_first m cs)"

text \<open>
  The Caption Extractor as the specification words it: the lines with the marker; of
  each the substring following the marker, trimmed, with one leading and one trailing
  quote stripped; the empty ones dropped; joined by newlines.
\<close>

definition extractCaptions_spec :: "jsstring \<Rightarrow> jsstring" where
  "extractCaptions_spec script =
     join_js [newline]
       (filter (\<lambda>l. l \<noteq> [])
          (map (\<lambda>l. replace_quotes (trim_js (after_first marker l)))
             (filter (\<lambda>l. includes_js l marker) (split_js [newline] script))))"

text \<open>Each line of an extracted text wrapped again: with the marker alone, and with
  the marker and a pair of quotes.\<close>

definition rewrap :: "jsstring \<Rightarrow> jsstring" where
  "rewrap out = join_js [newline] (map (\<lambda>l. marker @ l) (split_js [newline] out))"

definition rewrap_quoted :: "jsstring \<Rightarrow> jsstring" where
  "rewrap_quoted out =
     join_js [newline] (map (\<lambda>l. marker @ quote # l @ [quote]) (split_js [newline] out))"

section \<open>The PCM decoder\<close>

text \<open>
  Modelled from the spec: \<open>decodeAudioData\<close> of \<open>services/geminiService\<close>, the
  operation \<open>pcmToWaveform\<close> of the specification, is imported by App.tsx and is not
  among the sources. The specification reads the bytes as signed 16-bit little-endian
  samples, interleaved by channel, keeps \<open>floor(byteLength / 2 / channelCount)\<close>
  samples for each channel, drops an incomplete rest and divides each sample by 32768.
  Every quotient \<open>k / 32768\<close> of a 16-bit \<open>k\<close> has a numerator of at most 16 bits and
  a power of two below it, so binary floating point holds it exactly and the rational
  numbers give the very values. The specification gives no meaning to a channel count
  of 0, where the model has no result.
\<close>

definition int16_le :: "8 word \<Rightarrow> 8 word \<Rightarrow> int" where
  "int16_le lo hi = sint (push_bit 8 (ucast hi) OR ucast lo :: 16 word)"

fun pcm_samples :: "8 word list \<Rightarrow> int list" where
  "pcm_samples (lo # hi # rest) = int16_le lo hi # pcm_samples rest"
| "pcm_samples _ = []"

definition normalizeSample :: "int \<Rightarrow> rat" where
  "normalizeSample v = of_int v / 32768"

record waveform =
  sampleRate :: nat
  channelData :: "rat list list"

definition pcmToWaveform :: "8 word list \<Rightarrow> nat \<Rightarrow> nat \<Rightarrow> waveform option" where
  "pcmToWaveform bytes rate channelCount =
     (if channelCount = 0 then None
      else (let samples = pcm_samples bytes;
                frames = length bytes div 2 div channelCount
            in Some \<lparr>sampleRate = rate,
                     channelData =
                       map (\<lambda>ch. map (\<lambda>i. normalizeSample (samples ! (i * channelCount + ch)))
                                   [0..<frames])
                         [0..<channelCount]\<rparr>))"

section \<open>Observations on a session, and concrete inputs\<close>

text \<open>The audio contexts constructed and the contexts on which a source was started,
  read off the effects in their order.\<close>

fun contextsCreated :: "effect list \<Rightarrow> audio_context list" where
  "contextsCreated [] = []"
| "contextsCreated (NewAudioContext c # es) = c # contextsCreated es"
| "contextsCreated (_ # es) = contextsCreated es"

fun contextsPlayed :: "effect list \<Rightarrow> audio_context list" where
  "contextsPlayed [] = []"
| "contextsPlayed (SourceStart c # es) = c # contextsPlayed es"
| "contextsPlayed (_ # es) = contextsPlayed es"

text \<open>
  The invariant of the audio context: the contexts constructed are exactly the one the
  reference holds, every source started and every decoding in flight uses it. A
  reaction is quiet when it leaves the reference alone, constructs no context, starts
  no source and awaits no decoding.
\<close>

definition ctxInv :: "session \<Rightarrow> bool" where
  "ctxInv w \<longleftrightarrow>
     contextsCreated (effects w) = (case audioContextRef (ui w) of None \<Rightarrow> [] | Some c \<Rightarrow> [c])
   \<and> (\<forall>c \<in> set (contextsPlayed (effects w)). audioContextRef (ui w) = Some c)
   \<and> (\<forall>c. AwaitDecode c \<in> set (inflight w) \<longrightarrow> audioContextRef (ui w) = Some c)"

definition quiet :: "app \<Rightarrow> reaction \<Rightarrow> bool" where
  "quiet s r \<longleftrightarrow>
     audioContextRef (fst r) = audioContextRef s \<and> contextsCreated (fst (snd r)) = []
   \<and> contextsPlayed (fst (snd r)) = [] \<and> (\<forall>c. AwaitDecode c \<notin> set (snd (snd r)))"

text \<open>The ids of the library, first entry first.\<close>

definition savedIds :: "app \<Rightarrow> jsstring list" where
  "savedIds s = map id' (savedConcepts s)"

text \<open>Three concepts with the ids A, B and C: the first has a scene with an empty
  prompt, the second a scene with the prompt P, the third no scene.\<close>

definition conceptA :: ShortsConcept where
  "conceptA = \<lparr>id' = [0x41], title = [0x54, 0x41], hook = [0x48], detailedScript = [],
     visualScenes = [\<lparr>sceneNumber = 1, description = [], prompt = []\<rparr>],
     visualStyle = [], targetAudience = [], personalizedReason = []\<rparr>"

definition conceptB :: ShortsConcept where
  "conceptB = \<lparr>id' = [0x42], title = [0x54, 0x42], hook = [0x48], detailedScript = [],
     visualScenes = [\<lparr>sceneNumber = 1, description = [], prompt = [0x50]\<rparr>],
     visualStyle = [], targetAudience = [], personalizedReason = []\<rparr>"

definition conceptC :: ShortsConcept where
  "conceptC = \<lparr>id' = [0x43], title = [0x54, 0x43], hook = [0x48], detailedScript = [],
     visualScenes = [], visualStyle = [], targetAudience = [], personalizedReason = []\<rparr>"

text \<open>An image reference, the text \<open>null\<close>, and a form with the category
  SELF_IMPROVEMENT whose keywords are one space.\<close>

definition imageA :: jsstring where
  "imageA = [0x69, 0x41]"

definition nullText :: jsstring where
  "nullText = [0x6E, 0x75, 0x6C, 0x6C]"

text \<open>
  Two libraries and their JSON texts: one with concept A saved at the time 1, and one
  that holds concept A twice, saved at the times 2 and 1. The texts are what
  \<open>JSON.stringify\<close> writes for these arrays.
\<close>

definition onceA :: "SavedConcept list" where
  "onceA = [newSaved conceptA 1 QUOTES]"

definition twiceA :: "SavedConcept list" where
  "twiceA = [newSaved conceptA 2 QUOTES, newSaved conceptA 1 QUOTES]"

definition onceAText :: jsstring where
  "onceAText =
    [0x5B, 0x7B, 0x22, 0x69, 0x64, 0x22, 0x3A, 0x22, 0x41, 0x22, 0x2C, 0x22, 0x74, 0x69, 0x74,
     0x6C, 0x65, 0x22, 0x3A, 0x22, 0x54, 0x41, 0x22, 0x2C, 0x22, 0x68, 0x6F, 0x6F, 0x6B, 0x22,
     0x3A, 0x22, 0x48, 0x22, 0x2C, 0x22, 0x64, 0x65, 0x74, 0x61, 0x69, 0x6C, 0x65, 0x64, 0x53,
     0x63, 0x72, 0x69, 0x70, 0x74, 0x22, 0x3A, 0x22, 0x22, 0x2C, 0x22, 0x76, 0x69, 0x73, 0x75,
     0x61, 0x6C, 0x53, 0x63, 0x65, 0x6E, 0x65, 0x73, 0x22, 0x3A, 0x5B, 0x7B, 0x22, 0x73, 0x63,
     0x65, 0x6E, 0x65, 0x4E, 0x75, 0x6D, 0x62, 0x65, 0x72, 0x22, 0x3A, 0x31, 0x2C, 0x22, 0x64,
     0x65, 0x73, 0x63, 0x72, 0x69, 0x70, 0x74, 0x69, 0x6F, 0x6E, 0x22, 0x3A, 0x22, 0x22, 0x2C,
     0x22, 0x70, 0x72, 0x6F, 0x6D, 0x70, 0x74, 0x22, 0x3A, 0x22, 0x22, 0x7D, 0x5D, 0x2C, 0x22,
     0x76, 0x69, 0x73, 0x75, 0x61, 0x6C, 0x53, 0x74, 0x79, 0x6C, 0x65, 0x22, 0x3A, 0x22, 0x22,
     0x2C, 0x22, 0x74, 0x61, 0x72, 0x67, 0x65, 0x74, 0x41, 0x75, 0x64, 0x69, 0x65, 0x6E, 0x63,
     0x65, 0x22, 0x3A, 0x22, 0x22, 0x2C, 0x22, 0x70, 0x65, 0x72, 0x73, 0x6F, 0x6E, 0x61, 0x6C,
     0x69, 0x7A, 0x65, 0x64, 0x52, 0x65, 0x61, 0x73, 0x6F, 0x6E, 0x22, 0x3A, 0x22, 0x22, 0x2C,
     0x22, 0x73, 0x61, 0x76, 0x65, 0x64, 0x41, 0x74, 0x22, 0x3A, 0x31, 0x2C, 0x22, 0x63, 0x61,
     0x74, 0x65, 0x67, 0x6F, 0x72, 0x79, 0x22, 0x3A, 0x22, 0x51, 0x55, 0x4F, 0x54, 0x45, 0x53,
     0x22, 0x7D, 0x5D]"

definition twiceAText :: jsstring where
  "twiceAText =
    [0x5B, 0x7B, 0x22, 0x69, 0x64, 0x22, 0x3A, 0x22, 0x41, 0x22, 0x2C, 0x22, 0x74, 0x69, 0x74,
     0x6C, 0x65, 0x22, 0x3A, 0x22, 0x54, 0x41, 0x22, 0x2C, 0x22, 0x68, 0x6F, 0x6F, 0x6B, 0x22,
     0x3A, 0x22, 0x48, 0x22, 0x2C, 0x22, 0x64, 0x65, 0x74, 0x61, 0x69, 0x6C, 0x65, 0x64, 0x53,
     0x63, 0x72, 0x69, 0x70, 0x74, 0x22, 0x3A, 0x22, 0x22, 0x2C, 0x22, 0x76, 0x69, 0x73, 0x75,
     0x61, 0x6C, 0x53, 0x63, 0x65, 0x6E, 0x65, 0x73, 0x22, 0x3A, 0x5B, 0x7B, 0x22, 0x73, 0x63,
     0x65, 0x6E, 0x65, 0x4E, 0x75, 0x6D, 0x62, 0x65, 0x72, 0x22, 0x3A, 0x31, 0x2C, 0x22, 0x64,
     0x65, 0x73, 0x63, 0x72, 0x69, 0x70, 0x74, 0x69, 0x6F, 0x6E, 0x22, 0x3A, 0x22, 0x22, 0x2C,
     0x22, 0x70, 0x72, 0x6F, 0x6D, 0x70, 0x74, 0x22, 0x3A, 0x22, 0x22, 0x7D, 0x5D, 0x2C, 0x22,
     0x76, 0x69, 0x73, 0x75, 0x61, 0x6C, 0x53, 0x74, 0x79, 0x6C, 0x65, 0x22, 0x3A, 0x22, 0x22,
     0x2C, 0x22, 0x74, 0x61, 0x72, 0x67, 0x65, 0x74, 0x41, 0x75, 0x64, 0x69, 0x65, 0x6E, 0x63,
     0x65, 0x22, 0x3A, 0x22, 0x22, 0x2C, 0x22, 0x70, 0x65, 0x72, 0x73, 0x6F, 0x6E, 0x61, 0x6C,
     0x69, 0x7A, 0x65, 0x64, 0x52, 0x65, 0x61, 0x73, 0x6F, 0x6E, 0x22, 0x3A, 0x22, 0x22, 0x2C,
     0x22, 0x73, 0x61, 0x76, 0x65, 0x64, 0x41, 0x74, 0x22, 0x3A, 0x32, 0x2C, 0x22, 0x63, 0x61,
     0x74, 0x65, 0x67, 0x6F, 0x72, 0x79, 0x22, 0x3A, 0x22, 0x51, 0x55, 0x4F, 0x54, 0x45, 0x53,
     0x22, 0x7D, 0x2C, 0x7B, 0x22, 0x69, 0x64, 0x22, 0x3A, 0x22, 0x41, 0x22, 0x2C, 0x22, 0x74,
     0x69, 0x74, 0x6C, 0x65, 0x22, 0x3A, 0x22, 0x54, 0x41, 0x22, 0x2C, 0x22, 0x68, 0x6F, 0x6F,
     0x6B, 0x22, 0x3A, 0x22, 0x48, 0x22, 0x2C, 0x22, 0x64, 0x65, 0x74, 0x61, 0x69, 0x6C, 0x65,
     0x64, 0x53, 0x63, 0x72, 0x69, 0x70, 0x74, 0x22, 0x3A, 0x22, 0x22, 0x2C, 0x22, 0x76, 0x69,
     0x73, 0x75, 0x61, 0x6C, 0x53, 0x63, 0x65, 0x6E, 0x65, 0x73, 0x22, 0x3A, 0x5B, 0x7B, 0x22,
     0x73, 0x63, 0x65, 0x6E, 0x65, 0x4E, 0x75, 0x6D, 0x62, 0x65, 0x72, 0x22, 0x3A, 0x31, 0x2C,
     0x22, 0x64, 0x65, 0x73, 0x63, 0x72, 0x69, 0x70, 0x74, 0x69, 0x6F, 0x6E, 0x22, 0x3A, 0x22,
     0x22, 0x2C, 0x22, 0x70, 0x72, 0x6F, 0x6D, 0x70, 0x74, 0x22, 0x3A, 0x22, 0x22, 0x7D, 0x5D,
     0x2C, 0x22, 0x76, 0x69, 0x73, 0x75, 0x61, 0x6C, 0x53, 0x74, 0x79, 0x6C, 0x65, 0x22, 0x3A,
     0x22, 0x22, 0x2C, 0x22, 0x74, 0x61, 0x72, 0x67, 0x65, 0x74, 0x41, 0x75, 0x64, 0x69, 0x65,
     0x6E, 0x63, 0x65, 0x22, 0x3A, 0x22, 0x22, 0x2C, 0x22, 0x70, 0x65, 0x72, 0x73, 0x6F, 0x6E,
     0x61, 0x6C, 0x69, 0x7A, 0x65, 0x64, 0x52, 0x65, 0x61, 0x73, 0x6F, 0x6E, 0x22, 0x3A, 0x22,
     0x22, 0x2C, 0x22, 0x73, 0x61, 0x76, 0x65, 0x64, 0x41, 0x74, 0x22, 0x3A, 0x31, 0x2C, 0x22,
     0x63, 0x61, 0x74, 0x65, 0x67, 0x6F, 0x72, 0x79, 0x22, 0x3A, 0x22, 0x51, 0x55, 0x4F, 0x54,
     0x45, 0x53, 0x22, 0x7D, 0x5D]"

definition blankKeywords :: app where
  "blankKeywords = initial\<lparr>category := SELF_IMPROVEMENT, keywords' := [0x20]\<rparr>"

text \<open>Scripts: one line with two markers; three lines of which the second holds a
  quoted caption between spaces and the third a blank one; a caption inside two pairs
  of quotes; a caption whose quotes enclose a leading space.\<close>

definition twoMarkers :: jsstring where
  "twoMarkers = marker @ [0x61] @ marker @ [0x62]"

definition sampleScript :: jsstring where
  "sampleScript = [0x61, 0x0A] @ marker @ [0x20, 0x22, 0x62, 0x22, 0x20, 0x0A] @ marker @ [0x20]"

definition doubleQuoted :: jsstring where
  "doubleQuoted = marker @ [0x20, 0x22, 0x22, 0x61, 0x22, 0x22]"

definition innerSpace :: jsstring where
  "innerSpace = marker @ [0x20, 0x22, 0x20, 0x61, 0x22]"

text \<open>The lines that \<open>captions\<close> joins.\<close>

definition captionLines :: "jsstring \<Rightarrow> jsstring list" where
  "captionLines script =
     filter (\<lambda>l. l \<noteq> [])
       (map captionOfLine (filter (\<lambda>l. includes_js l marker) (split_js [newline] script)))"

section \<open>Facts shared by the proofs\<close>

subsection \<open>Reactions and runs\<close>

lemma ui_react [simp]: "ui (react r w) = fst r"
  by (cases r) (simp add: react_def)

lemma effects_react [simp]: "effects (react r w) = effects w @ fst (snd r)"
  by (cases r) (simp add: react_def)

lemma inflight_react [simp]: "inflight (react r w) = inflight w @ snd (snd r)"
  by (cases r) (simp add: react_def)

lemma find_id_None: "(find (\<lambda>c. id' c = i) xs = None) = (i \<notin> set (map id' xs))"
  by (induction xs) auto

lemma run_append: "run (es @ es') w = run es' (run es w)"
  by (induction es arbitrary: w) simp_all

lemma id_newSaved [simp]: "id' (newSaved c now cat) = id' c"
  by (simp add: newSaved_def)

section \<open>The PCM decoder normalizes into the unit range\<close>

lemma length_pcm_samples: "length (pcm_samples bytes) = length bytes div 2"
  by (induction bytes rule: pcm_samples.induct) simp_all

lemma int16_le_range: "- 32768 \<le> int16_le lo hi \<and> int16_le lo hi \<le> 32767"
proof -
  have "- (2 ^ (LENGTH(16) - 1)) \<le> sint (push_bit 8 (ucast hi) OR ucast lo :: 16 word)"
    by (rule sint_ge)
  moreover have "sint (push_bit 8 (ucast hi) OR ucast lo :: 16 word) < 2 ^ (LENGTH(16) - 1)"
    by (rule sint_lt)
  ultimately show ?thesis
    by (simp add: int16_le_def)
qed

lemma pcm_samples_range: "k \<in> set (pcm_samples bytes) \<Longrightarrow> - 32768 \<le> k \<and> k \<le> 32767"
  by (induction bytes rule: pcm_samples.induct) (auto simp: int16_le_range)

lemma normalizeSample_range:
  "- 32768 \<le> k \<Longrightarrow> k \<le> 32767 \<Longrightarrow> - 1 \<le> normalizeSample k \<and> normalizeSample k \<le> 1"
  by (simp add: normalizeSample_def)

lemma frame_index:
  assumes "0 < n" "i < m div n" "ch < n"
  shows "i * n + ch < (m::nat)"
proof -
  have "i * n + ch < (i + 1) * n" using assms by simp
  also have "\<dots> \<le> (m div n) * n" using assms by (intro mult_le_mono1) simp
  also have "\<dots> \<le> m" by simp
  finally show ?thesis .
qed

lemma pcm_value:
  assumes "pcmToWaveform bytes rate n = Some buf" "ch \<in> set (channelData buf)" "x \<in> set ch"
  shows "\<exists>k \<in> set (pcm_samples bytes). x = normalizeSample k"
proof -
  from assms(1) have n: "0 < n" by (auto simp: pcmToWaveform_def split: if_splits)
  from assms n obtain c i where c: "c < n" and i: "i < length bytes div 2 div n"
    and x: "x = normalizeSample (pcm_samples bytes ! (i * n + c))"
    by (auto simp: pcmToWaveform_def Let_def)
  from frame_index [OF n i c] have "i * n + c < length (pcm_samples bytes)"
    by (simp add: length_pcm_samples)
  then have "pcm_samples bytes ! (i * n + c) \<in> set (pcm_samples bytes)" by simp
  with x show ?thesis by blast
qed

lemma pcm_mono:
  "pcmToWaveform bytes rate 1 =
     Some \<lparr>sampleRate = rate, channelData = [map normalizeSample (pcm_samples bytes)]\<rparr>"
proof -
  have "map (\<lambda>i. normalizeSample (pcm_samples bytes ! i)) [0..<length (pcm_samples bytes)] =
        map normalizeSample (pcm_samples bytes)"
    by (rule nth_equalityI) simp_all
  then show ?thesis by (simp add: pcmToWaveform_def length_pcm_samples)
qed

text \<open>
  C7. Every value of a decoded waveform is a 16-bit sample of the input divided by
  32768 and lies between -1 and 1; with one channel the waveform holds every complete
  sample of the input, divided by 32768, in order. The byte pair FF 7F decodes to
  32767/32768 and the pair 00 80 to -1.
\<close>

theorem pcmToWaveform_normalized:
  "(pcmToWaveform bytes rate n = Some buf \<longrightarrow>
      (\<forall>ch \<in> set (channelData buf). \<forall>x \<in> set ch.
         - 1 \<le> x \<and> x \<le> 1 \<and> (\<exists>k \<in> set (pcm_samples bytes). x = of_int k / 32768)))
   \<and> pcmToWaveform bytes rate 1 =
       Some \<lparr>sampleRate = rate,
             channelData = [map (\<lambda>k. of_int k / 32768) (pcm_samples bytes)]\<rparr>
   \<and> pcmToWaveform [0xFF, 0x7F] rate 1 =
       Some \<lparr>sampleRate = rate, channelData = [[32767 / 32768]]\<rparr>
   \<and> pcmToWaveform [0x00, 0x80] rate 1 = Some \<lparr>sampleRate = rate, channelData = [[- 1]]\<rparr>"
proof (intro conjI impI ballI)
  fix ch x
  assume a: "pcmToWaveform bytes rate n = Some buf" "ch \<in> set (channelData buf)" "x \<in> set ch"
  from pcm_value [OF a] obtain k where k: "k \<in> set (pcm_samples bytes)" "x = normalizeSample k"
    by blast
  from pcm_samples_range [OF k(1)] have r: "- 32768 \<le> k" "k \<le> 32767" by simp_all
  from normalizeSample_range [OF r] k(2) show "- 1 \<le> x" "x \<le> 1" by simp_all
  from k show "\<exists>k \<in> set (pcm_samples bytes). x = of_int k / 32768"
    by (auto simp: normalizeSample_def)
next
  show "pcmToWaveform bytes rate 1 =
       Some \<lparr>sampleRate = rate,
             channelData = [map (\<lambda>k. of_int k / 32768) (pcm_samples bytes)]\<rparr>"
    using pcm_mono [of bytes rate] by (simp add: normalizeSample_def [abs_def])
next
  show "pcmToWaveform [0xFF, 0x7F] rate 1 =
       Some \<lparr>sampleRate = rate, channelData = [[32767 / 32768]]\<rparr>"
    by (simp add: pcmToWaveform_def int16_le_def normalizeSample_def)
next
  show "pcmToWaveform [0x00, 0x80] rate 1 = Some \<lparr>sampleRate = rate, channelData = [[- 1]]\<rparr>"
    by (simp add: pcmToWaveform_def int16_le_def normalizeSample_def)
qed

theorem pcmToWaveform_normalized_witness:
  "pcmToWaveform [0xFF, 0x7F, 0x00, 0x80, 0x01] 24000 2 =
     Some \<lparr>sampleRate = 24000, channelData = [[32767 / 32768], [- 1]]\<rparr>
   \<and> pcm_samples [0xFF, 0x7F, 0x00, 0x80, 0x01] = [32767, - 32768]
   \<and> - 1 \<le> (32767 / 32768 :: rat) \<and> (32767 / 32768 :: rat) \<le> 1
   \<and> - 1 \<le> (- 1 :: rat) \<and> (- 1 :: rat) \<le> 1"
proof -
  have e: "pcmToWaveform [0xFF, 0x7F, 0x00, 0x80, 0x01] 24000 2 =
     Some \<lparr>sampleRate = 24000, channelData = [[32767 / 32768], [- 1]]\<rparr>"
    by (simp add: pcmToWaveform_def int16_le_def normalizeSample_def upt_rec)
  have s: "pcm_samples [0xFF, 0x7F, 0x00, 0x80, 0x01] = [32767, - 32768]"
    by (simp add: int16_le_def)
  from pcmToWaveform_normalized [of "[0xFF, 0x7F, 0x00, 0x80, 0x01]" 24000 2
      "\<lparr>sampleRate = 24000, channelData = [[32767 / 32768], [- 1]]\<rparr>"] e s
  show ?thesis by simp
qed

section \<open>The prompt of the image request\<close>

text \<open>
  C10. Selecting a concept without a scene, or one whose first scene has the empty
  prompt, requests the image for the title of the concept; with a first scene whose
  prompt is not empty the request carries that prompt.
\<close>

theorem imagePrompt_fallback:
  "((visualScenes concept = [] \<or> (\<exists>sc rest. visualScenes concept = sc # rest \<and> prompt sc = []))
      \<longrightarrow> fst (snd (handleSelectConcept concept s)) =
            [GenerateBackgroundImage (title concept) (visualMode s)])
   \<and> (\<forall>sc rest. visualScenes concept = sc # rest \<and> prompt sc \<noteq> []
      \<longrightarrow> fst (snd (handleSelectConcept concept s)) =
            [GenerateBackgroundImage (prompt sc) (visualMode s)])"
  by (auto simp: handleSelectConcept_def imagePrompt_def)

theorem imagePrompt_fallback_witness:
  "visualScenes conceptA = [\<lparr>sceneNumber = 1, description = [], prompt = []\<rparr>]
   \<and> fst (snd (handleSelectConcept conceptA initial)) =
       [GenerateBackgroundImage [0x54, 0x41] REALISTIC]
   \<and> visualScenes conceptC = []
   \<and> fst (snd (handleSelectConcept conceptC initial)) =
       [GenerateBackgroundImage [0x54, 0x43] REALISTIC]
   \<and> fst (snd (handleSelectConcept conceptB initial)) = [GenerateBackgroundImage [0x50] REALISTIC]"
  using imagePrompt_fallback [of conceptA initial] imagePrompt_fallback [of conceptB initial]
    imagePrompt_fallback [of conceptC initial]
  by (simp add: conceptA_def conceptB_def conceptC_def initial_def)

section \<open>The guard of handleRecommend\<close>

text \<open>
  C3, as stated, fails: with the category SELF_IMPROVEMENT and keywords that are one
  space the keywords are not empty, yet the handler alerts and issues no request.
\<close>

theorem handleRecommend_blank_counterexample:
  "category blankKeywords = SELF_IMPROVEMENT \<and> keywords' blankKeywords \<noteq> []
   \<and> handleRecommend blankKeywords = (blankKeywords, [Alert NeedInput], [])"
  by (simp add: blankKeywords_def initial_def handleRecommend_def trim_js_def isWhiteSpace_def)

text \<open>
  C3, amended. The handler alerts, leaves the state as it is and issues no request
  exactly when the trimmed keywords are empty and the category is SELF_IMPROVEMENT or
  the category is QUOTES and the trimmed name of the featured figure is empty. In every
  other case it issues the one request, with the inputs as entered.
\<close>

theorem handleRecommend_validation:
  "(trim_js (keywords' s) = [] \<and>
      (category s = SELF_IMPROVEMENT \<or> (category s = QUOTES \<and> trim_js (philosopherName s) = []))
     \<longrightarrow> handleRecommend s = (s, [Alert NeedInput], []))
   \<and> (\<not> (trim_js (keywords' s) = [] \<and>
      (category s = SELF_IMPROVEMENT \<or> (category s = QUOTES \<and> trim_js (philosopherName s) = [])))
     \<longrightarrow> snd (handleRecommend s) =
           ([GetConceptRecommendations (category s) (keywords' s) (visualMode s)
               (philosopherName s)],
            [AwaitRecommendations]))"
  by (cases "category s") (auto simp: handleRecommend_def)

theorem handleRecommend_validation_witness:
  "handleRecommend initial = (initial, [Alert NeedInput], [])
   \<and> snd (handleRecommend (initial\<lparr>keywords' := [0x20, 0x61]\<rparr>)) =
       ([GetConceptRecommendations QUOTES [0x20, 0x61] REALISTIC []], [AwaitRecommendations])
   \<and> snd (handleRecommend (initial\<lparr>philosopherName := [0x61]\<rparr>)) =
       ([GetConceptRecommendations QUOTES [] REALISTIC [0x61]], [AwaitRecommendations])
   \<and> handleRecommend (initial\<lparr>category := SELF_IMPROVEMENT, philosopherName := [0x61]\<rparr>)
       = (initial\<lparr>category := SELF_IMPROVEMENT, philosopherName := [0x61]\<rparr>,
          [Alert NeedInput], [])"
  using handleRecommend_validation [of initial]
    handleRecommend_validation [of "initial\<lparr>keywords' := [0x20, 0x61]\<rparr>"]
    handleRecommend_validation [of "initial\<lparr>philosopherName := [0x61]\<rparr>"]
    handleRecommend_validation
      [of "initial\<lparr>category := SELF_IMPROVEMENT, philosopherName := [0x61]\<rparr>"]
  by (simp add: initial_def trim_js_def isWhiteSpace_def)

section \<open>Loading the library on mount\<close>

text \<open>
  Where the startup goes on: without a stored text and with the empty text the session
  is the one of the initial state; a text that \<open>JSON.parse\<close> rejects is logged and
  leaves the empty library; a text that parses to an array of saved concepts makes that
  array the library.
\<close>

lemma mount_absent: "mount None parsed = Running start"
  by (simp add: mount_def loadSaved_def renderAfterMount_def start_def initial_def)

lemma mount_empty: "mount (Some []) parsed = Running start"
  by (simp add: mount_def loadSaved_def renderAfterMount_def start_def initial_def)

lemma mount_unparseable:
  "payload \<noteq> [] \<Longrightarrow>
   mount (Some payload) SyntaxError =
     Running \<lparr>ui = initial, inflight = [], effects = [ConsoleError]\<rparr>"
  by (simp add: mount_def loadSaved_def renderAfterMount_def initial_def)

lemma mount_entries:
  "payload \<noteq> [] \<Longrightarrow>
   mount (Some payload) (Parsed (JEntries entries)) =
     Running \<lparr>ui = initial\<lparr>savedConcepts := entries\<rparr>, inflight = [], effects = []\<rparr>"
  by (simp add: mount_def loadSaved_def renderAfterMount_def)

lemma mount_Running:
  assumes "mount stored parsed = Running w"
  shows "inflight w = [] \<and> (\<exists>entries. ui w = initial\<lparr>savedConcepts := entries\<rparr>
     \<and> (entries = [] \<or> parsed = Parsed (JEntries entries)))"
proof -
  obtain v es where l: "loadSaved stored parsed = (v, es)"
    by (cases "loadSaved stored parsed")
  from assms l obtain entries where v: "v = JEntries entries"
    and w: "w = \<lparr>ui = initial\<lparr>savedConcepts := entries\<rparr>, inflight = [], effects = es\<rparr>"
    by (cases v) (simp_all add: mount_def renderAfterMount_def)
  from l v have "entries = [] \<or> parsed = Parsed (JEntries entries)"
    by (auto simp: loadSaved_def split: option.splits if_splits parse_outcome.splits)
  with w show ?thesis by auto
qed

text \<open>
  C6. A damaged stored payload should give the empty library and never stop the
  startup. The code catches only the exception of \<open>JSON.parse\<close>. The stored text
  \<open>null\<close> is damaged and parses: the effect logs nothing and hands \<open>null\<close> to the
  state, the render that follows throws a TypeError at \<open>savedConcepts.length\<close>, and
  the page is gone.
\<close>

theorem mount_null_crashes:
  "loadSaved (Some nullText) (Parsed JNull) = (JNull, [])
   \<and> renderAfterMount JNull = Some TypeError
   \<and> mount (Some nullText) (Parsed JNull) = Crashed TypeError"
  by (simp add: mount_def loadSaved_def renderAfterMount_def nullText_def)

section \<open>A stale image request\<close>

text \<open>
  C1, as stated, fails. Concept A is selected, then concept B, and then the request
  made for A is fulfilled with an image while the one for B is still in flight: B stays
  selected, and the preview image, also the one displayed, is the image of A.
\<close>

theorem stale_image_counterexample:
  "inflight (run [ClickConcept conceptA, ClickConcept conceptB] start) =
     [AwaitImage conceptA, AwaitImage conceptB]
   \<and> selectedConcept (ui (run [ClickConcept conceptA, ClickConcept conceptB,
        ImageSettle 0 (Fulfilled (Some imageA))] start)) = Some conceptB
   \<and> previewImage (ui (run [ClickConcept conceptA, ClickConcept conceptB,
        ImageSettle 0 (Fulfilled (Some imageA))] start)) = Some imageA
   \<and> displayedImage (ui (run [ClickConcept conceptA, ClickConcept conceptB,
        ImageSettle 0 (Fulfilled (Some imageA))] start)) = Some imageA
   \<and> inflight (run [ClickConcept conceptA, ClickConcept conceptB,
        ImageSettle 0 (Fulfilled (Some imageA))] start) = [AwaitImage conceptB]"
  by (simp add: start_def initial_def react_def settle_def handleSelectConcept_def
      displayedImage_def imageA_def)

text \<open>
  C1, amended. A selection sets the selected concept and empties the preview at once.
  When A is selected, then B, and the request of A settles afterwards, B is still the
  selected concept, the loading flag is cleared, and the result of A is applied without
  a comparison with the selection: a fulfilled request stores its image as the preview,
  a rejected one leaves the preview empty. The continuation stores the image whatever
  the concept of its closure and the selection are, so the request that settles last
  decides the preview. When the request of B settles after that of A, its image
  replaces the preview if it is fulfilled, and the preview stays as the request of A
  left it if it is rejected. When the request of B settles first and that of A
  afterwards, the image of A replaces the one of B if the request of A is fulfilled.
  B is the selected concept throughout.
\<close>

theorem stale_image_applied:
  "inflight (step (ClickConcept B) (step (ClickConcept A) w)) ! length (inflight w) = AwaitImage A
   \<and> selectedConcept (ui (step (ClickConcept B) (step (ClickConcept A) w))) = Some B
   \<and> previewImage (ui (step (ClickConcept B) (step (ClickConcept A) w))) = None
   \<and> selectedConcept (ui (step (ImageSettle (length (inflight w)) r)
         (step (ClickConcept B) (step (ClickConcept A) w)))) = Some B
   \<and> previewImage (ui (step (ImageSettle (length (inflight w)) r)
         (step (ClickConcept B) (step (ClickConcept A) w)))) =
       (case r of Fulfilled img \<Rightarrow> img | Rejected \<Rightarrow> None)
   \<and> imageLoading (ui (step (ImageSettle (length (inflight w)) r)
         (step (ClickConcept B) (step (ClickConcept A) w)))) = False
   \<and> fst (handleSelectConcept_settled A (Fulfilled img) s) =
       s\<lparr>previewImage := img, imageLoading := False\<rparr>
   \<and> inflight (step (ImageSettle (length (inflight w)) r)
         (step (ClickConcept B) (step (ClickConcept A) w))) ! length (inflight w) = AwaitImage B
   \<and> previewImage (ui (step (ImageSettle (length (inflight w)) r')
         (step (ImageSettle (length (inflight w)) r)
           (step (ClickConcept B) (step (ClickConcept A) w))))) =
       (case r' of
          Fulfilled img' \<Rightarrow> img'
        | Rejected \<Rightarrow> (case r of Fulfilled img \<Rightarrow> img | Rejected \<Rightarrow> None))
   \<and> selectedConcept (ui (step (ImageSettle (length (inflight w)) r')
         (step (ImageSettle (length (inflight w)) r)
           (step (ClickConcept B) (step (ClickConcept A) w))))) = Some B
   \<and> inflight (step (ClickConcept B) (step (ClickConcept A) w)) ! Suc (length (inflight w)) =
       AwaitImage B
   \<and> previewImage (ui (step (ImageSettle (length (inflight w)) r)
         (step (ImageSettle (Suc (length (inflight w))) r')
           (step (ClickConcept B) (step (ClickConcept A) w))))) =
       (case r of
          Fulfilled img \<Rightarrow> img
        | Rejected \<Rightarrow> (case r' of Fulfilled img' \<Rightarrow> img' | Rejected \<Rightarrow> None))
   \<and> selectedConcept (ui (step (ImageSettle (length (inflight w)) r)
         (step (ImageSettle (Suc (length (inflight w))) r')
           (step (ClickConcept B) (step (ClickConcept A) w))))) = Some B"
  by (cases r; cases r')
    (simp_all add: react_def settle_def handleSelectConcept_def nth_append)

text \<open>C1 at concrete concepts: the request of A is fulfilled after B was selected, and
  the request of B is rejected after that.\<close>

theorem stale_image_applied_witness:
  "previewImage (ui (step (ImageSettle 0 (Fulfilled (Some imageA)))
      (step (ClickConcept conceptB) (step (ClickConcept conceptA) start)))) = Some imageA
   \<and> selectedConcept (ui (step (ImageSettle 0 (Fulfilled (Some imageA)))
      (step (ClickConcept conceptB) (step (ClickConcept conceptA) start)))) = Some conceptB
   \<and> previewImage (ui (step (ImageSettle 0 Rejected) (step (ImageSettle 0 (Fulfilled (Some imageA)))
      (step (ClickConcept conceptB) (step (ClickConcept conceptA) start))))) = Some imageA"
  using stale_image_applied [where A = conceptA and B = conceptB and w = start
      and r = "Fulfilled (Some imageA)" and r' = Rejected]
  by (simp add: start_def)

section \<open>The library\<close>

lemma saved_handleRecommend: "savedConcepts (fst (handleRecommend s)) = savedConcepts s"
  by (simp add: handleRecommend_def)

lemma saved_handleRecommend_settled:
  "savedConcepts (fst (handleRecommend_settled r s)) = savedConcepts s"
  by (cases r) simp_all

lemma saved_handleSelectConcept: "savedConcepts (fst (handleSelectConcept c s)) = savedConcepts s"
  by (simp add: handleSelectConcept_def)

lemma saved_handleSelectConcept_settled:
  "savedConcepts (fst (handleSelectConcept_settled c r s)) = savedConcepts s"
  by (cases r) simp_all

lemma saved_handleGenerateAudio: "savedConcepts (fst (handleGenerateAudio s)) = savedConcepts s"
  by (simp add: handleGenerateAudio_def split: option.splits)

lemma saved_handleGenerateAudio_spoken:
  "savedConcepts (fst (handleGenerateAudio_spoken r ctor bytes s)) = savedConcepts s"
  by (simp add: handleGenerateAudio_spoken_def decodeWith_def audioFailure_def
      split: option.splits settled.splits)

lemma saved_handleGenerateAudio_decoded:
  "savedConcepts (fst (handleGenerateAudio_decoded ctx r s)) = savedConcepts s"
  by (cases r) (simp_all add: audioFailure_def)

lemma saved_copyCaptions: "savedConcepts (fst (copyCaptions s)) = savedConcepts s"
  by (simp add: copyCaptions_def Let_def split: option.splits)

lemmas saved_unchanged = saved_handleRecommend saved_handleRecommend_settled
  saved_handleSelectConcept saved_handleSelectConcept_settled saved_handleGenerateAudio
  saved_handleGenerateAudio_spoken saved_handleGenerateAudio_decoded saved_copyCaptions

lemma distinct_handleSaveConcept:
  "distinct (savedIds s) \<Longrightarrow> distinct (savedIds (fst (handleSaveConcept now s)))"
  by (auto simp: handleSaveConcept_def savedIds_def find_id_None split: option.splits)

lemma distinct_handleDeleteSaved:
  "distinct (savedIds s) \<Longrightarrow> distinct (savedIds (fst (handleDeleteSaved i c s)))"
  by (auto simp: handleDeleteSaved_def savedIds_def Let_def distinct_map_filter
      split: option.splits)

lemma distinct_clearSaved:
  "distinct (savedIds s) \<Longrightarrow> distinct (savedIds (fst (clearSaved c s)))"
  by (auto simp: clearSaved_def savedIds_def)

lemma savedIds_settle:
  assumes "\<And>t. pred_option (\<lambda>r. savedIds (fst r) = savedIds (ui w)) (k t)"
  shows "savedIds (ui (settle n k w)) = savedIds (ui w)"
  using assms [of "inflight w ! n"] by (auto simp: settle_def split: option.splits)

lemma distinct_step:
  assumes "distinct (savedIds (ui w))"
  shows "distinct (savedIds (ui (step e w)))"
proof (cases e)
  case (ClickSave now)
  then show ?thesis using distinct_handleSaveConcept [OF assms] by simp
next
  case (ClickDelete i c)
  then show ?thesis using distinct_handleDeleteSaved [OF assms] by simp
next
  case (ClickClear c)
  then show ?thesis using distinct_clearSaved [OF assms] by simp
next
  case (ClickSaved sc)
  then show ?thesis using assms
    by (simp add: savedIds_def handleSelectConcept_def)
next
  case (RecommendationsSettle n r)
  have "savedIds (ui (step e w)) = savedIds (ui w)"
    unfolding RecommendationsSettle step.simps
    by (rule savedIds_settle) (simp add: savedIds_def saved_unchanged split: task.splits)
  then show ?thesis using assms by simp
next
  case (ImageSettle n r)
  have "savedIds (ui (step e w)) = savedIds (ui w)"
    unfolding ImageSettle step.simps
    by (rule savedIds_settle) (simp add: savedIds_def saved_unchanged split: task.splits)
  then show ?thesis using assms by simp
next
  case (SpeechSettle n r ctor bytes)
  have "savedIds (ui (step e w)) = savedIds (ui w)"
    unfolding SpeechSettle step.simps
    by (rule savedIds_settle) (simp add: savedIds_def saved_unchanged split: task.splits)
  then show ?thesis using assms by simp
next
  case (DecodeSettle n r)
  have "savedIds (ui (step e w)) = savedIds (ui w)"
    unfolding DecodeSettle step.simps
    by (rule savedIds_settle) (simp add: savedIds_def saved_unchanged split: task.splits)
  then show ?thesis using assms by simp
qed (use assms in \<open>simp_all add: savedIds_def saved_unchanged\<close>)

lemma distinct_run:
  "distinct (savedIds (ui w)) \<Longrightarrow> distinct (savedIds (ui (run es w)))"
  by (induction es arbitrary: w) (simp_all add: distinct_step)

lemma save_present:
  assumes "selectedConcept s = Some c" "id' c \<in> set (savedIds s)"
  shows "handleSaveConcept now s = (s, [Alert AlreadySaved], [])"
  using assms by (simp add: handleSaveConcept_def savedIds_def find_id_None)

lemma save_then_present:
  assumes "selectedConcept s = Some c"
  shows "selectedConcept (fst (handleSaveConcept now s)) = Some c
       \<and> id' c \<in> set (savedIds (fst (handleSaveConcept now s)))"
  using assms by (auto simp: handleSaveConcept_def savedIds_def find_id_None)

lemma count_distinct:
  "distinct (map f xs) \<Longrightarrow> y \<in> set xs \<Longrightarrow> length (filter (\<lambda>x. f x = f y) xs) = 1"
  by (induction xs) (auto simp: filter_empty_conv image_iff)

text \<open>
  C4, as stated, fails. The effect that loads the library stores the array it reads
  without a check: from a stored array that holds concept A twice the session starts
  with two entries of one id. Opening the library, selecting the entry and saving it
  twice is answered twice that it is saved already, and the two entries stay.
\<close>

theorem library_loaded_twice_counterexample:
  "mount (Some twiceAText) (Parsed (JEntries twiceA)) =
     Running \<lparr>ui = initial\<lparr>savedConcepts := twiceA\<rparr>, inflight = [], effects = []\<rparr>
   \<and> savedIds (initial\<lparr>savedConcepts := twiceA\<rparr>) = [[0x41], [0x41]]
   \<and> savedIds (ui (run [ToggleSaved, ClickSaved (newSaved conceptA 2 QUOTES), ClickSave 3,
         ClickSave 4]
        \<lparr>ui = initial\<lparr>savedConcepts := twiceA\<rparr>, inflight = [], effects = []\<rparr>)) =
       [[0x41], [0x41]]
   \<and> filter (\<lambda>e. e = Alert AlreadySaved)
        (effects (run [ToggleSaved, ClickSaved (newSaved conceptA 2 QUOTES), ClickSave 3,
           ClickSave 4]
          \<lparr>ui = initial\<lparr>savedConcepts := twiceA\<rparr>, inflight = [], effects = []\<rparr>)) =
       [Alert AlreadySaved, Alert AlreadySaved]"
  by (simp add: mount_def loadSaved_def renderAfterMount_def twiceAText_def twiceA_def
      savedIds_def initial_def handleSelectConcept_def handleSaveConcept_def
      ShortsConcept.truncate_def newSaved_def conceptA_def)

text \<open>
  C4, amended. In a session whose library, as loaded when the page starts, has no
  repeated id (so with nothing stored, with a text that does not parse, and with a
  stored array without a repeated id), and from any library without a repeated id, no
  sequence of events leads to a library with a repeated id. Saving a selected concept
  whose id is present alerts that it is saved already and changes nothing. Saving a
  selected concept twice in a row into a library without a repeated id answers the
  second attempt that way and leaves exactly one entry with the id.
\<close>

theorem library_dedup:
  "distinct (savedIds (ui (run es start)))
   \<and> ((\<forall>entries. parsed = Parsed (JEntries entries) \<longrightarrow> distinct (map id' entries))
        \<and> mount stored parsed = Running w0
        \<longrightarrow> distinct (savedIds (ui (run es w0))))
   \<and> (distinct (savedIds (ui w)) \<longrightarrow> distinct (savedIds (ui (run es w))))
   \<and> (selectedConcept s = Some c \<and> id' c \<in> set (savedIds s)
        \<longrightarrow> handleSaveConcept now s = (s, [Alert AlreadySaved], []))
   \<and> (selectedConcept s = Some c \<and> distinct (savedIds s)
        \<longrightarrow> handleSaveConcept now' (fst (handleSaveConcept now s)) =
              (fst (handleSaveConcept now s), [Alert AlreadySaved], [])
          \<and> length (filter (\<lambda>x. id' x = id' c)
               (savedConcepts (fst (handleSaveConcept now s)))) = 1)"
proof (intro conjI impI)
  show "distinct (savedIds (ui (run es start)))"
    by (rule distinct_run) (simp add: start_def initial_def savedIds_def)
  show "distinct (savedIds (ui w)) \<Longrightarrow> distinct (savedIds (ui (run es w)))"
    by (rule distinct_run)
  show "selectedConcept s = Some c \<and> id' c \<in> set (savedIds s) \<Longrightarrow>
      handleSaveConcept now s = (s, [Alert AlreadySaved], [])"
    by (simp add: save_present)
next
  assume m: "(\<forall>entries. parsed = Parsed (JEntries entries) \<longrightarrow> distinct (map id' entries))
      \<and> mount stored parsed = Running w0"
  then obtain entries where e: "ui w0 = initial\<lparr>savedConcepts := entries\<rparr>"
      "entries = [] \<or> parsed = Parsed (JEntries entries)"
    using mount_Running [of stored parsed w0] by blast
  with m have "distinct (savedIds (ui w0))"
    by (auto simp: savedIds_def)
  then show "distinct (savedIds (ui (run es w0)))"
    by (rule distinct_run)
next
  assume a: "selectedConcept s = Some c \<and> distinct (savedIds s)"
  let ?s1 = "fst (handleSaveConcept now s)"
  from a save_then_present [of s c now]
  have p: "selectedConcept ?s1 = Some c" "id' c \<in> set (savedIds ?s1)" by simp_all
  show "handleSaveConcept now' ?s1 = (?s1, [Alert AlreadySaved], [])"
    using p by (rule save_present)
  from a have d: "distinct (map id' (savedConcepts ?s1))"
    using distinct_handleSaveConcept [of s now] by (simp add: savedIds_def)
  from p(2) obtain y where y: "y \<in> set (savedConcepts ?s1)" "id' y = id' c"
    by (auto simp: savedIds_def)
  from count_distinct [OF d y(1)] y(2)
  show "length (filter (\<lambda>x. id' x = id' c) (savedConcepts ?s1)) = 1" by simp
qed

text \<open>C4 at concrete runs: concept A is selected and saved twice in a session that
  starts with nothing stored; and in a session that loads a library with the one entry
  of A, this entry is selected and saved again.\<close>

theorem library_dedup_witness:
  "savedIds (ui (run [ClickConcept conceptA, ClickSave 1] start)) = [[0x41]]
   \<and> selectedConcept (ui (run [ClickConcept conceptA, ClickSave 1] start)) = Some conceptA
   \<and> handleSaveConcept 2 (ui (run [ClickConcept conceptA, ClickSave 1] start)) =
       (ui (run [ClickConcept conceptA, ClickSave 1] start), [Alert AlreadySaved], [])
   \<and> savedIds (ui (run [ClickConcept conceptA, ClickSave 1, ClickSave 2] start)) = [[0x41]]
   \<and> distinct (savedIds (ui (run [ClickConcept conceptA, ClickSave 1, ClickSave 2] start)))
   \<and> mount (Some onceAText) (Parsed (JEntries onceA)) =
       Running \<lparr>ui = initial\<lparr>savedConcepts := onceA\<rparr>, inflight = [], effects = []\<rparr>
   \<and> distinct (map id' onceA)
   \<and> distinct (savedIds (ui (run [ClickConcept conceptA, ClickSave 1, ClickSave 2]
        \<lparr>ui = initial\<lparr>savedConcepts := onceA\<rparr>, inflight = [], effects = []\<rparr>)))
   \<and> savedIds (ui (run [ClickConcept conceptA, ClickSave 1, ClickSave 2]
        \<lparr>ui = initial\<lparr>savedConcepts := onceA\<rparr>, inflight = [], effects = []\<rparr>)) = [[0x41]]"
proof -
  have a: "ui (run [ClickConcept conceptA, ClickSave 1] start) =
     initial\<lparr>selectedConcept := Some conceptA, imageLoading := True,
       savedConcepts := [newSaved conceptA 1 QUOTES]\<rparr>"
    by (simp add: start_def initial_def handleSelectConcept_def handleSaveConcept_def)
  have b: "ui (run [ClickConcept conceptA, ClickSave 1, ClickSave 2] start) =
     initial\<lparr>selectedConcept := Some conceptA, imageLoading := True,
       savedConcepts := [newSaved conceptA 1 QUOTES]\<rparr>"
    by (simp add: start_def initial_def handleSelectConcept_def handleSaveConcept_def)
  have i: "id' conceptA = [0x41]" by (simp add: conceptA_def)
  have m: "mount (Some onceAText) (Parsed (JEntries onceA)) =
       Running \<lparr>ui = initial\<lparr>savedConcepts := onceA\<rparr>, inflight = [], effects = []\<rparr>"
    by (simp add: mount_def loadSaved_def renderAfterMount_def onceAText_def)
  have d: "distinct (map id' onceA)" by (simp add: onceA_def)
  have l: "savedIds (ui (run [ClickConcept conceptA, ClickSave 1, ClickSave 2]
        \<lparr>ui = initial\<lparr>savedConcepts := onceA\<rparr>, inflight = [], effects = []\<rparr>)) = [[0x41]]"
    by (simp add: savedIds_def initial_def handleSelectConcept_def handleSaveConcept_def
        onceA_def i)
  from library_dedup [where es = "[ClickConcept conceptA, ClickSave 1, ClickSave 2]"
      and w = start and c = conceptA and now = 2
      and s = "ui (run [ClickConcept conceptA, ClickSave 1] start)"
      and stored = "Some onceAText" and parsed = "Parsed (JEntries onceA)"
      and ?w0.0 = "\<lparr>ui = initial\<lparr>savedConcepts := onceA\<rparr>, inflight = [], effects = []\<rparr>"]
    m d l
  show ?thesis
    unfolding a b by (simp add: savedIds_def i initial_def)
qed

lemma truncate_newSaved: "ShortsConcept.truncate (newSaved c now cat) = c"
  by (simp add: newSaved_def ShortsConcept.truncate_def)

lemma save_absent:
  assumes "selectedConcept s = Some c" "id' c \<notin> set (savedIds s)"
  shows "handleSaveConcept now s =
    (s\<lparr>savedConcepts := newSaved c now (category s) # savedConcepts s\<rparr>, [Alert Saved], [])"
  using assms by (simp add: handleSaveConcept_def savedIds_def find_id_None)

lemma select_then_save:
  assumes "id' c \<notin> set (savedIds (ui w))"
  shows "ui (run [ClickConcept c, ClickSave t] w) =
     (ui w)\<lparr>selectedConcept := Some c, previewImage := None, imageLoading := True,
       savedConcepts := newSaved c t (category (ui w)) # savedConcepts (ui w)\<rparr>"
  using assms by (simp add: handleSelectConcept_def handleSaveConcept_def savedIds_def find_id_None)

text \<open>
  C5. Saving a selected concept whose id is not in the library puts the new entry, the
  fields of the concept with the time of saving and the current category, in front of
  the entries there were, and reports it. Selecting and saving three concepts with
  different ids x, y and z, in this order, into an empty library yields the entries of
  z, y and x, in this order.
\<close>

theorem library_ordering:
  "(selectedConcept s = Some c \<and> id' c \<notin> set (savedIds s) \<longrightarrow>
      handleSaveConcept now s =
        (s\<lparr>savedConcepts := newSaved c now (category s) # savedConcepts s\<rparr>, [Alert Saved], []))
   \<and> ShortsConcept.truncate (newSaved c now cat) = c
   \<and> savedAt (newSaved c now cat) = now
   \<and> SavedConcept.category (newSaved c now cat) = cat
   \<and> (distinct [id' x, id' y, id' z] \<and> savedConcepts (ui w) = [] \<longrightarrow>
        savedConcepts (ui (run [ClickConcept x, ClickSave t1, ClickConcept y, ClickSave t2,
                                ClickConcept z, ClickSave t3] w)) =
          [newSaved z t3 (category (ui w)), newSaved y t2 (category (ui w)),
           newSaved x t1 (category (ui w))])"
proof (intro conjI impI)
  show "selectedConcept s = Some c \<and> id' c \<notin> set (savedIds s) \<Longrightarrow>
     handleSaveConcept now s =
        (s\<lparr>savedConcepts := newSaved c now (category s) # savedConcepts s\<rparr>, [Alert Saved], [])"
    by (simp add: save_absent)
  show "ShortsConcept.truncate (newSaved c now cat) = c" by (rule truncate_newSaved)
  show "savedAt (newSaved c now cat) = now" by (simp add: newSaved_def)
  show "SavedConcept.category (newSaved c now cat) = cat" by (simp add: newSaved_def)
next
  assume a: "distinct [id' x, id' y, id' z] \<and> savedConcepts (ui w) = []"
  let ?w1 = "run [ClickConcept x, ClickSave t1] w"
  let ?w2 = "run [ClickConcept y, ClickSave t2] ?w1"
  let ?w3 = "run [ClickConcept z, ClickSave t3] ?w2"
  have 1: "ui ?w1 = (ui w)\<lparr>selectedConcept := Some x, previewImage := None, imageLoading := True,
       savedConcepts := [newSaved x t1 (category (ui w))]\<rparr>"
    using a select_then_save [of x w t1] by (simp add: savedIds_def)
  have "id' y \<notin> set (savedIds (ui ?w1))" using a unfolding 1 by (auto simp: savedIds_def)
  from select_then_save [OF this, of t2]
  have 2: "savedConcepts (ui ?w2) = [newSaved y t2 (category (ui w)), newSaved x t1 (category (ui w))]"
     and c2: "category (ui ?w2) = category (ui w)"
    unfolding 1 by simp_all
  have "id' z \<notin> set (savedIds (ui ?w2))" using a 2 by (auto simp: savedIds_def)
  from select_then_save [OF this, of t3]
  have "savedConcepts (ui ?w3) = [newSaved z t3 (category (ui w)), newSaved y t2 (category (ui w)), newSaved x t1 (category (ui w))]"
    using 2 c2 by simp
  then show "savedConcepts (ui (run [ClickConcept x, ClickSave t1, ClickConcept y, ClickSave t2,
                                ClickConcept z, ClickSave t3] w)) =
          [newSaved z t3 (category (ui w)), newSaved y t2 (category (ui w)),
           newSaved x t1 (category (ui w))]"
    by simp
qed

text \<open>C5 at a concrete run: the concepts A, B and C are saved at the times 1, 2 and 3.\<close>

theorem library_ordering_witness:
  "savedIds (ui (run [ClickConcept conceptA, ClickSave 1, ClickConcept conceptB, ClickSave 2,
       ClickConcept conceptC, ClickSave 3] start)) = [[0x43], [0x42], [0x41]]
   \<and> map savedAt (savedConcepts (ui (run [ClickConcept conceptA, ClickSave 1, ClickConcept conceptB, ClickSave 2,
       ClickConcept conceptC, ClickSave 3] start))) = [3, 2, 1]
   \<and> handleSaveConcept 5 (initial\<lparr>selectedConcept := Some conceptA\<rparr>) =
       (initial\<lparr>selectedConcept := Some conceptA, savedConcepts := [newSaved conceptA 5 QUOTES]\<rparr>, [Alert Saved], [])"
  using library_ordering [where x = conceptA and y = conceptB and z = conceptC and w = start
      and ?t1.0 = 1 and ?t2.0 = 2 and ?t3.0 = 3 and s = "initial\<lparr>selectedConcept := Some conceptA\<rparr>"
      and c = conceptA and now = 5]
  by (simp add: savedIds_def start_def initial_def conceptA_def conceptB_def conceptC_def newSaved_def)


section \<open>The shared audio context\<close>

lemma contextsCreated_append:
  "contextsCreated (xs @ ys) = contextsCreated xs @ contextsCreated ys"
  by (induction xs rule: contextsCreated.induct) simp_all

lemma contextsPlayed_append:
  "contextsPlayed (xs @ ys) = contextsPlayed xs @ contextsPlayed ys"
  by (induction xs rule: contextsPlayed.induct) simp_all

lemma ctxInv_quiet: "ctxInv w \<Longrightarrow> quiet (ui w) r \<Longrightarrow> ctxInv (react r w)"
  by (auto simp: ctxInv_def quiet_def contextsCreated_append contextsPlayed_append)

lemma ctxInv_ui: "ctxInv w \<Longrightarrow> audioContextRef s = audioContextRef (ui w) \<Longrightarrow> ctxInv (w\<lparr>ui := s\<rparr>)"
  by (simp add: ctxInv_def)

lemma ctxInv_drop:
  "ctxInv w \<Longrightarrow> ctxInv (w\<lparr>inflight := take n (inflight w) @ drop (Suc n) (inflight w)\<rparr>)"
  by (auto simp: ctxInv_def dest: in_set_takeD in_set_dropD)

lemma quiet_handleRecommend: "quiet s (handleRecommend s)"
  by (simp add: quiet_def handleRecommend_def)
lemma quiet_handleRecommend_settled: "quiet s (handleRecommend_settled r s)"
  by (cases r) (simp_all add: quiet_def)
lemma quiet_handleSelectConcept: "quiet s (handleSelectConcept c s)"
  by (simp add: quiet_def handleSelectConcept_def)
lemma quiet_handleSelectConcept_settled: "quiet s (handleSelectConcept_settled c r s)"
  by (cases r) (simp_all add: quiet_def)
lemma quiet_handleGenerateAudio: "quiet s (handleGenerateAudio s)"
  by (simp add: quiet_def handleGenerateAudio_def split: option.splits)
lemma quiet_copyCaptions: "quiet s (copyCaptions s)"
  by (simp add: quiet_def copyCaptions_def Let_def split: option.splits)
lemma quiet_handleSaveConcept: "quiet s (handleSaveConcept now s)"
  by (simp add: quiet_def handleSaveConcept_def split: option.splits)
lemma quiet_handleDeleteSaved: "quiet s (handleDeleteSaved i c s)"
  by (simp add: quiet_def handleDeleteSaved_def Let_def split: option.splits)
lemma quiet_clearSaved: "quiet s (clearSaved c s)"
  by (simp add: quiet_def clearSaved_def)

lemmas quiet_handlers = quiet_handleRecommend quiet_handleRecommend_settled
  quiet_handleSelectConcept quiet_handleSelectConcept_settled quiet_handleGenerateAudio
  quiet_copyCaptions quiet_handleSaveConcept quiet_handleDeleteSaved quiet_clearSaved

lemma ctxInv_spoken:
  assumes "ctxInv w"
  shows "ctxInv (react (handleGenerateAudio_spoken r ctor bytes (ui w)) w)"
  using assms
  by (auto simp: ctxInv_def handleGenerateAudio_spoken_def decodeWith_def audioFailure_def
      contextsCreated_append contextsPlayed_append split: settled.splits option.splits)

lemma ctxInv_decoded:
  assumes "ctxInv w" "audioContextRef (ui w) = Some ctx"
  shows "ctxInv (react (handleGenerateAudio_decoded ctx r (ui w)) w)"
  using assms
  by (cases r) (auto simp: ctxInv_def audioFailure_def
      contextsCreated_append contextsPlayed_append)

lemma ctxInv_settle_quiet:
  assumes "ctxInv w" "\<And>t. pred_option (quiet (ui w)) (k t)"
  shows "ctxInv (settle n k w)"
proof (cases "n < length (inflight w)")
  case True
  let ?w' = "w\<lparr>inflight := take n (inflight w) @ drop (Suc n) (inflight w)\<rparr>"
  have i: "ctxInv ?w'" using assms(1) by (rule ctxInv_drop)
  show ?thesis
  proof (cases "k (inflight w ! n)")
    case None
    then show ?thesis using assms(1) True by (simp add: settle_def)
  next
    case (Some r)
    with assms(2) [of "inflight w ! n"] have "quiet (ui ?w') r" by simp
    from ctxInv_quiet [OF i this] Some True show ?thesis by (simp add: settle_def)
  qed
next
  case False
  then show ?thesis using assms(1) by (simp add: settle_def)
qed

lemma ctxInv_step:
  assumes "ctxInv w"
  shows "ctxInv (step e w)"
proof (cases e)
  case (ClickSaved sc)
  have "quiet (ui w) (case handleSelectConcept (ShortsConcept.truncate sc) (ui w) of
              (s, r) \<Rightarrow> (s\<lparr>category := SavedConcept.category sc\<rparr>, r))"
    by (simp add: quiet_def handleSelectConcept_def)
  from ctxInv_quiet [OF assms this] ClickSaved show ?thesis by simp
next
  case (RecommendationsSettle n r)
  show ?thesis unfolding RecommendationsSettle step.simps
    by (rule ctxInv_settle_quiet [OF assms]) (simp add: quiet_handlers split: task.splits)
next
  case (ImageSettle n r)
  show ?thesis unfolding ImageSettle step.simps
    by (rule ctxInv_settle_quiet [OF assms]) (simp add: quiet_handlers split: task.splits)
next
  case (SpeechSettle n r ctor bytes)
  let ?w' = "w\<lparr>inflight := take n (inflight w) @ drop (Suc n) (inflight w)\<rparr>"
  have i: "ctxInv ?w'" using assms by (rule ctxInv_drop)
  from ctxInv_spoken [OF i, of r ctor bytes] assms
  show ?thesis unfolding SpeechSettle step.simps
    by (simp add: settle_def split: task.splits)
next
  case (DecodeSettle n r)
  let ?w' = "w\<lparr>inflight := take n (inflight w) @ drop (Suc n) (inflight w)\<rparr>"
  have i: "ctxInv ?w'" using assms by (rule ctxInv_drop)
  show ?thesis
  proof (cases "n < length (inflight w)")
    case True
    show ?thesis
    proof (cases "inflight w ! n")
      case (AwaitDecode ctx)
      with True have "AwaitDecode ctx \<in> set (inflight w)" by (metis nth_mem)
      with assms have "audioContextRef (ui ?w') = Some ctx" by (simp add: ctxInv_def)
      from ctxInv_decoded [OF i this, of r] True AwaitDecode
      show ?thesis unfolding DecodeSettle step.simps by (simp add: settle_def)
    qed (use assms True DecodeSettle in \<open>simp_all add: settle_def\<close>)
  next
    case False
    then show ?thesis using assms DecodeSettle by (simp add: settle_def)
  qed
qed (use assms in \<open>simp_all add: ctxInv_quiet quiet_handlers ctxInv_ui\<close>)

lemma ctxInv_run: "ctxInv w \<Longrightarrow> ctxInv (run es w)"
  by (induction es arbitrary: w) (simp_all add: ctxInv_step)

lemma ctxInv_start: "ctxInv start"
  by (simp add: ctxInv_def start_def initial_def)

lemma ref_kept_react_quiet: "quiet s r \<Longrightarrow> audioContextRef (fst r) = audioContextRef s"
  by (simp add: quiet_def)

lemmas ref_kept_quiet = quiet_handlers [THEN ref_kept_react_quiet]

lemma ref_kept_spoken:
  "audioContextRef s = Some c \<Longrightarrow> audioContextRef (fst (handleGenerateAudio_spoken r ctor bytes s)) = Some c"
  by (simp add: handleGenerateAudio_spoken_def decodeWith_def audioFailure_def split: settled.splits option.splits)

lemma ref_kept_decoded:
  "audioContextRef (fst (handleGenerateAudio_decoded ctx r s)) = audioContextRef s"
  by (cases r) (simp_all add: audioFailure_def)

lemma ref_kept_settle:
  assumes "audioContextRef (ui w) = Some c"
    "\<And>t. pred_option (\<lambda>r. audioContextRef (fst r) = Some c) (k t)"
  shows "audioContextRef (ui (settle n k w)) = Some c"
  using assms(1) assms(2) [of "inflight w ! n"] by (auto simp: settle_def split: option.splits)

lemma ref_kept_step:
  assumes "audioContextRef (ui w) = Some c"
  shows "audioContextRef (ui (step e w)) = Some c"
proof (cases e)
  case (ClickSaved sc)
  then show ?thesis using assms by (simp add: handleSelectConcept_def)
next
  case (RecommendationsSettle n r)
  show ?thesis unfolding RecommendationsSettle step.simps
    by (rule ref_kept_settle [OF assms])
      (simp add: ref_kept_quiet assms split: task.splits)
next
  case (ImageSettle n r)
  show ?thesis unfolding ImageSettle step.simps
    by (rule ref_kept_settle [OF assms])
      (simp add: ref_kept_quiet assms split: task.splits)
next
  case (SpeechSettle n r ctor bytes)
  show ?thesis unfolding SpeechSettle step.simps
    by (rule ref_kept_settle [OF assms]) (simp add: ref_kept_spoken assms split: task.splits)
next
  case (DecodeSettle n r)
  show ?thesis unfolding DecodeSettle step.simps
    by (rule ref_kept_settle [OF assms]) (simp add: ref_kept_decoded assms split: task.splits)
qed (use assms in \<open>simp_all add: ref_kept_quiet\<close>)

lemma ref_kept_run:
  "audioContextRef (ui w) = Some c \<Longrightarrow> audioContextRef (ui (run es w)) = Some c"
  by (induction es arbitrary: w) (simp_all add: ref_kept_step)

text \<open>
  C9. No audio context exists when the session starts. After any sequence of events the
  contexts constructed so far are none while the reference is empty, and otherwise the
  one context the reference holds: at most one is ever constructed. Every source that
  was started plays on that context. Once the reference holds a context, it holds the
  same one after any further events, and no other context is constructed.
\<close>

theorem audio_context_shared:
  "audioContextRef (ui start) = None
   \<and> contextsCreated (effects (run es start)) =
       (case audioContextRef (ui (run es start)) of None \<Rightarrow> [] | Some c \<Rightarrow> [c])
   \<and> length (contextsCreated (effects (run es start))) \<le> 1
   \<and> (\<forall>c \<in> set (contextsPlayed (effects (run es start))).
         audioContextRef (ui (run es start)) = Some c \<and> contextsCreated (effects (run es start)) = [c])
   \<and> (audioContextRef (ui (run es start)) = Some c \<longrightarrow>
         audioContextRef (ui (run (es @ es') start)) = Some c
       \<and> contextsCreated (effects (run (es @ es') start)) = [c])"
proof -
  have i: "ctxInv (run es start)" and j: "ctxInv (run (es @ es') start)"
    by (rule ctxInv_run [OF ctxInv_start])+
  have k: "audioContextRef (ui (run es start)) = Some c \<Longrightarrow>
         audioContextRef (ui (run (es @ es') start)) = Some c"
    by (simp add: run_append ref_kept_run)
  show ?thesis
    using i j k by (auto simp: ctxInv_def start_def initial_def split: option.splits)
qed

text \<open>C9 at a concrete run: a concept is selected and the audio button is pressed twice;
  both speech requests are fulfilled, then both decodings. The constructor would return
  the context 5 at the first and the context 6 at the second speech result.\<close>

theorem audio_context_shared_witness:
  "effects (run [ClickConcept conceptC, ClickAudio, ClickAudio,
       SpeechSettle 1 (Fulfilled (Some [0x41])) (Some 5) (Some [0, 0]),
       SpeechSettle 1 (Fulfilled (Some [0x41])) (Some 6) (Some [0, 0]),
       DecodeSettle 1 (Fulfilled ()), DecodeSettle 1 (Fulfilled ())] start) =
     [GenerateBackgroundImage [0x54, 0x43] REALISTIC, GenerateSpeech [0x48] Kore, GenerateSpeech [0x48] Kore,
      NewAudioContext 5, DecodeAudioData [0, 0] 5 24000 1, DecodeAudioData [0, 0] 5 24000 1,
      SourceStart 5, SourceStart 5]
   \<and> audioContextRef (ui (run [ClickConcept conceptC, ClickAudio, ClickAudio,
       SpeechSettle 1 (Fulfilled (Some [0x41])) (Some 5) (Some [0, 0]),
       SpeechSettle 1 (Fulfilled (Some [0x41])) (Some 6) (Some [0, 0]),
       DecodeSettle 1 (Fulfilled ()), DecodeSettle 1 (Fulfilled ())] start)) = Some 5
   \<and> audioContextRef (ui (run [ClickConcept conceptC, ClickAudio, ClickAudio,
       SpeechSettle 1 (Fulfilled (Some [0x41])) (Some 5) (Some [0, 0])] start)) = Some 5"
proof -
  have a: "run [ClickConcept conceptC, ClickAudio, ClickAudio,
       SpeechSettle 1 (Fulfilled (Some [0x41])) (Some 5) (Some [0, 0])] start =
      \<lparr>ui = initial\<lparr>selectedConcept := Some conceptC, imageLoading := True, audioLoading := True,
             audioContextRef := Some 5\<rparr>,
       inflight = [AwaitImage conceptC, AwaitSpeech, AwaitDecode 5],
       effects = [GenerateBackgroundImage [0x54, 0x43] REALISTIC, GenerateSpeech [0x48] Kore,
         GenerateSpeech [0x48] Kore, NewAudioContext 5, DecodeAudioData [0, 0] 5 24000 1]\<rparr>"
    by (simp add: start_def initial_def react_def settle_def handleSelectConcept_def
        handleGenerateAudio_def handleGenerateAudio_spoken_def decodeWith_def imagePrompt_def
        conceptC_def)
  have b: "run [SpeechSettle 1 (Fulfilled (Some [0x41])) (Some 6) (Some [0, 0]),
       DecodeSettle 1 (Fulfilled ()), DecodeSettle 1 (Fulfilled ())]
      \<lparr>ui = initial\<lparr>selectedConcept := Some conceptC, imageLoading := True, audioLoading := True,
             audioContextRef := Some 5\<rparr>,
       inflight = [AwaitImage conceptC, AwaitSpeech, AwaitDecode 5],
       effects = [GenerateBackgroundImage [0x54, 0x43] REALISTIC, GenerateSpeech [0x48] Kore,
         GenerateSpeech [0x48] Kore, NewAudioContext 5, DecodeAudioData [0, 0] 5 24000 1]\<rparr> =
      \<lparr>ui = initial\<lparr>selectedConcept := Some conceptC, imageLoading := True, audioLoading := False,
             audioContextRef := Some 5\<rparr>,
       inflight = [AwaitImage conceptC],
       effects = [GenerateBackgroundImage [0x54, 0x43] REALISTIC, GenerateSpeech [0x48] Kore,
         GenerateSpeech [0x48] Kore, NewAudioContext 5, DecodeAudioData [0, 0] 5 24000 1,
         DecodeAudioData [0, 0] 5 24000 1, SourceStart 5, SourceStart 5]\<rparr>"
    by (simp add: initial_def react_def settle_def handleGenerateAudio_spoken_def decodeWith_def)
  have c: "run [ClickConcept conceptC, ClickAudio, ClickAudio,
       SpeechSettle 1 (Fulfilled (Some [0x41])) (Some 5) (Some [0, 0]),
       SpeechSettle 1 (Fulfilled (Some [0x41])) (Some 6) (Some [0, 0]),
       DecodeSettle 1 (Fulfilled ()), DecodeSettle 1 (Fulfilled ())] start =
     run [SpeechSettle 1 (Fulfilled (Some [0x41])) (Some 6) (Some [0, 0]),
       DecodeSettle 1 (Fulfilled ()), DecodeSettle 1 (Fulfilled ())]
      (run [ClickConcept conceptC, ClickAudio, ClickAudio,
       SpeechSettle 1 (Fulfilled (Some [0x41])) (Some 5) (Some [0, 0])] start)"
    using run_append [of "[ClickConcept conceptC, ClickAudio, ClickAudio,
       SpeechSettle 1 (Fulfilled (Some [0x41])) (Some 5) (Some [0, 0])]"
       "[SpeechSettle 1 (Fulfilled (Some [0x41])) (Some 6) (Some [0, 0]),
       DecodeSettle 1 (Fulfilled ()), DecodeSettle 1 (Fulfilled ())]" start]
    by simp
  from audio_context_shared [where es = "[ClickConcept conceptC, ClickAudio, ClickAudio,
       SpeechSettle 1 (Fulfilled (Some [0x41])) (Some 5) (Some [0, 0])]"
      and es' = "[SpeechSettle 1 (Fulfilled (Some [0x41])) (Some 6) (Some [0, 0]),
       DecodeSettle 1 (Fulfilled ()), DecodeSettle 1 (Fulfilled ())]" and c = 5]
  show ?thesis
    unfolding c a b by simp
qed


section \<open>The caption extraction\<close>

subsection \<open>Occurrences, pieces and lines\<close>

lemma includes_js_sublist: "includes_js s m = sublist m s"
  by (induction s) (simp_all add: sublist_Cons_right)

lemma split_from_first:
  assumes "sep \<noteq> []"
  shows "split_from sep cur s =
     (cur @ before_first sep s) #
       (if includes_js s sep then split_from sep [] (after_first sep s) else [])"
  using assms
proof (induction s arbitrary: cur)
  case Nil
  then show ?case by simp
next
  case (Cons c cs)
  show ?case
  proof (cases "prefix sep (c # cs)")
    case True
    with Cons.prems show ?thesis by simp
  next
    case False
    with Cons.prems Cons.IH [of "cur @ [c]"] show ?thesis by simp
  qed
qed

lemma before_first_whole: "\<not> includes_js s m \<Longrightarrow> before_first m s = s"
  by (induction s) auto

lemma prefix_before_first: "prefix (before_first m s) s"
  by (induction s) auto

lemma suffix_after_first: "suffix (after_first m s) s"
proof (induction s)
  case Nil
  then show ?case by simp
next
  case (Cons c cs)
  show ?case
  proof (cases "prefix m (c # cs)")
    case True
    then show ?thesis by (simp add: suffix_drop)
  next
    case False
    with Cons.IH show ?thesis by (simp add: suffix_ConsI)
  qed
qed

lemma before_first_excludes:
  assumes "m \<noteq> []"
  shows "\<not> includes_js (before_first m s) m"
proof (induction s)
  case Nil
  with assms show ?case by simp
next
  case (Cons c cs)
  show ?case
  proof (cases "prefix m (c # cs)")
    case True
    with assms show ?thesis by simp
  next
    case False
    have "prefix (c # before_first m cs) (c # cs)"
      by (simp add: prefix_before_first)
    then have "\<not> prefix m (c # before_first m cs)"
      using False prefix_order.trans by blast
    with False Cons.IH show ?thesis by simp
  qed
qed

lemma join_split_from:
  assumes "sep \<noteq> []"
  shows "join_js sep (split_from sep cur s) = cur @ s"
  using assms
proof (induction sep cur s rule: split_from.induct)
  case (1 sep cur)
  then show ?case by simp
next
  case (2 sep cur c cs)
  show ?case
  proof (cases "prefix sep (c # cs)")
    case True
    with 2 have ih: "join_js sep (split_from sep [] (drop (length sep) (c # cs))) =
        drop (length sep) (c # cs)" by simp
    obtain p ps where ps: "split_from sep [] (drop (length sep) (c # cs)) = p # ps"
      using split_from_first [OF "2.prems"] by blast
    from True have "sep @ drop (length sep) (c # cs) = c # cs"
      by (metis append_eq_conv_conj prefix_def)
    with True 2 ih ps show ?thesis by simp
  next
    case False
    with 2 show ?thesis by simp
  qed
qed

lemma split_nth_1:
  assumes "m \<noteq> []"
  shows "(length (split_js m l) > 1) = includes_js l m"
    and "includes_js l m \<Longrightarrow> split_js m l ! 1 = before_first m (after_first m l)"
proof -
  have a: "split_js m l = before_first m l #
       (if includes_js l m then split_from m [] (after_first m l) else [])"
    using assms split_from_first [OF assms, of "[]" l] by (simp add: split_js_def)
  have b: "split_from m [] (after_first m l) = before_first m (after_first m l) #
       (if includes_js (after_first m l) m then split_from m [] (after_first m (after_first m l)) else [])"
    using split_from_first [OF assms, of "[]" "after_first m l"] by simp
  show "(length (split_js m l) > 1) = includes_js l m"
    by (subst a, subst b) simp
  show "includes_js l m \<Longrightarrow> split_js m l ! 1 = before_first m (after_first m l)"
    by (subst a, subst b) simp
qed

lemma marker_nonempty: "marker \<noteq> []"
  by (simp add: marker_def)

lemma captionOfLine_first:
  "captionOfLine l =
     (if includes_js l marker
      then replace_quotes (trim_js (before_first marker (after_first marker l))) else [])"
  using split_nth_1 [OF marker_nonempty, of l]
  by (simp add: captionOfLine_def Let_def)


text \<open>
  C2, as stated, fails on a line with two markers. For the line made of the marker, the
  letter a, the marker and the letter b the code yields a, the piece between the two
  markers; the substring following the marker is a, the marker and b (and b after the
  last marker).
\<close>

theorem captions_two_markers_counterexample:
  "captions twoMarkers = [0x61]
   \<and> extractCaptions_spec twoMarkers = [0x61, 0x5B, 0xC790, 0xB9C9, 0x5D, 0x62]
   \<and> after_first marker twoMarkers = [0x61, 0x5B, 0xC790, 0xB9C9, 0x5D, 0x62]
   \<and> captions twoMarkers \<noteq> extractCaptions_spec twoMarkers
   \<and> captions twoMarkers \<noteq> [0x62]"
  by (simp add: twoMarkers_def captions_def extractCaptions_spec_def captionOfLine_def
      split_js_def marker_def newline_def trim_js_def isWhiteSpace_def replace_quotes_def
      quote_def)

lemma captions_first:
  "captions script =
     join_js [newline]
       (filter (\<lambda>l. l \<noteq> [])
          (map (\<lambda>l. replace_quotes (trim_js (before_first marker (after_first marker l))))
             (filter (\<lambda>l. includes_js l marker) (split_js [newline] script))))"
proof -
  have "map captionOfLine (filter (\<lambda>l. includes_js l marker) (split_js [newline] script)) =
        map (\<lambda>l. replace_quotes (trim_js (before_first marker (after_first marker l))))
          (filter (\<lambda>l. includes_js l marker) (split_js [newline] script))"
    by (rule map_cong) (simp_all add: captionOfLine_first)
  then show ?thesis by (simp only: captions_def)
qed

lemma lines_roundtrip: "join_js [newline] (split_js [newline] script) = script"
  using join_split_from [of "[newline]" "[]" script] by (simp add: split_js_def)

lemma split_from_char_free:
  "n \<notin> set cur \<Longrightarrow> p \<in> set (split_from [n] cur s) \<Longrightarrow> n \<notin> set p"
proof (induction s arbitrary: cur)
  case Nil
  then show ?case by simp
next
  case (Cons c cs)
  show ?case
  proof (cases "c = n")
    case True
    with Cons.prems have "p = cur \<or> p \<in> set (split_from [n] [] cs)" by simp
    then show ?thesis using Cons.prems(1) Cons.IH [of "[]"] by auto
  next
    case False
    with Cons.prems have "p \<in> set (split_from [n] (cur @ [c]) cs)" by simp
    moreover have "n \<notin> set (cur @ [c])" using False Cons.prems(1) by simp
    ultimately show ?thesis by (rule Cons.IH [rotated])
  qed
qed

lemma lines_newline_free: "l \<in> set (split_js [newline] script) \<Longrightarrow> newline \<notin> set l"
  using split_from_char_free [of newline "[]" l script] by (simp add: split_js_def)

text \<open>
  C2, amended. The lines of a script are its pieces between the newlines: they hold no
  newline and joined by newlines they give the script back. The extraction keeps the
  lines that contain the marker; of each it takes the text from behind the first marker
  up to the next marker, or to the end of the line when there is none, trims it and
  removes a quote at its start and a quote at its end; it drops the results that are
  empty and joins the others by newlines, in their order. Without a line that contains
  the marker the result is empty. On a script none of whose lines has a second marker
  this is the extraction as the specification words it. The function has a result for
  every script: no step of it can fail.
\<close>

theorem captions_extraction:
  "join_js [newline] (split_js [newline] script) = script
   \<and> (\<forall>l \<in> set (split_js [newline] script). newline \<notin> set l)
   \<and> captions script =
       join_js [newline]
         (filter (\<lambda>l. l \<noteq> [])
            (map (\<lambda>l. replace_quotes (trim_js (before_first marker (after_first marker l))))
               (filter (\<lambda>l. includes_js l marker) (split_js [newline] script))))
   \<and> ((\<forall>l \<in> set (split_js [newline] script). \<not> includes_js l marker) \<longrightarrow> captions script = [])
   \<and> ((\<forall>l \<in> set (split_js [newline] script). \<not> includes_js (after_first marker l) marker)
        \<longrightarrow> captions script = extractCaptions_spec script)"
proof (intro conjI impI ballI)
  show "join_js [newline] (split_js [newline] script) = script" by (rule lines_roundtrip)
  show "\<And>l. l \<in> set (split_js [newline] script) \<Longrightarrow> newline \<notin> set l"
    by (rule lines_newline_free)
  show "captions script =
       join_js [newline]
         (filter (\<lambda>l. l \<noteq> [])
            (map (\<lambda>l. replace_quotes (trim_js (before_first marker (after_first marker l))))
               (filter (\<lambda>l. includes_js l marker) (split_js [newline] script))))"
    by (rule captions_first)
next
  assume "\<forall>l \<in> set (split_js [newline] script). \<not> includes_js l marker"
  then have "filter (\<lambda>l. includes_js l marker) (split_js [newline] script) = []"
    by (simp add: filter_empty_conv)
  then show "captions script = []" by (simp add: captions_def)
next
  assume a: "\<forall>l \<in> set (split_js [newline] script). \<not> includes_js (after_first marker l) marker"
  have "map (\<lambda>l. replace_quotes (trim_js (before_first marker (after_first marker l))))
          (filter (\<lambda>l. includes_js l marker) (split_js [newline] script)) =
        map (\<lambda>l. replace_quotes (trim_js (after_first marker l)))
          (filter (\<lambda>l. includes_js l marker) (split_js [newline] script))"
    by (rule map_cong) (use a in \<open>simp_all add: before_first_whole\<close>)
  then show "captions script = extractCaptions_spec script"
    by (simp only: captions_first extractCaptions_spec_def)
qed

text \<open>C2 at a concrete script of three lines, and at one without a marker.\<close>

theorem captions_extraction_witness:
  "split_js [newline] sampleScript =
     [[0x61], marker @ [0x20, 0x22, 0x62, 0x22, 0x20], marker @ [0x20]]
   \<and> captions sampleScript = [0x62]
   \<and> extractCaptions_spec sampleScript = [0x62]
   \<and> split_js [newline] [0x61, 0x0A, 0x62] = [[0x61], [0x62]]
   \<and> captions [0x61, 0x0A, 0x62] = []"
proof -
  have a: "split_js [newline] sampleScript =
     [[0x61], marker @ [0x20, 0x22, 0x62, 0x22, 0x20], marker @ [0x20]]"
    by (simp add: sampleScript_def split_js_def marker_def newline_def)
  have b: "split_js [newline] [0x61, 0x0A, 0x62] = [[0x61], [0x62]]"
    by (simp add: split_js_def newline_def)
  have c: "captions sampleScript = [0x62]"
    unfolding captions_def a
    by (simp add: captionOfLine_def split_js_def marker_def newline_def trim_js_def
        isWhiteSpace_def replace_quotes_def quote_def)
  have "\<forall>l \<in> set (split_js [newline] sampleScript). \<not> includes_js (after_first marker l) marker"
    unfolding a by (simp add: marker_def)
  with captions_extraction [of sampleScript]
  have d: "captions sampleScript = extractCaptions_spec sampleScript" by blast
  have "\<forall>l \<in> set (split_js [newline] [0x61, 0x0A, 0x62]). \<not> includes_js l marker"
    unfolding b by (simp add: marker_def)
  with captions_extraction [of "[0x61, 0x0A, 0x62]"]
  have e: "captions [0x61, 0x0A, 0x62] = []" by blast
  from d c have f: "extractCaptions_spec sampleScript = [0x62]" by simp
  from a c f b e show ?thesis by (intro conjI)
qed


subsection \<open>Extraction of a text that was extracted and wrapped again\<close>

lemma sublist_trim_js: "sublist (trim_js s) s"
proof -
  have "suffix (dropWhile isWhiteSpace (rev (dropWhile isWhiteSpace s)))
          (rev (dropWhile isWhiteSpace s))"
    by (rule suffix_dropWhile)
  then have "prefix (trim_js s) (dropWhile isWhiteSpace s)"
    by (simp add: trim_js_def suffix_to_prefix)
  moreover have "suffix (dropWhile isWhiteSpace s) s"
    by (rule suffix_dropWhile)
  ultimately show ?thesis
    using prefix_imp_sublist suffix_imp_sublist sublist_order.order.trans by blast
qed

lemma sublist_replace_quotes: "sublist (replace_quotes s) s"
proof -
  define s1 where "s1 = (case s of [] \<Rightarrow> [] | c # cs \<Rightarrow> if c = quote then cs else s)"
  have "suffix s1 s"
    by (cases s) (simp_all add: s1_def suffix_ConsI)
  moreover have "prefix (replace_quotes s) s1"
    by (simp add: replace_quotes_def s1_def [symmetric] Let_def prefixeq_butlast)
  ultimately show ?thesis
    using prefix_imp_sublist suffix_imp_sublist sublist_order.order.trans by blast
qed

lemma sublist_captionOfLine: "sublist (captionOfLine l) l"
proof (cases "includes_js l marker")
  case True
  have "sublist (before_first marker (after_first marker l)) l"
    using prefix_before_first [of marker "after_first marker l"] suffix_after_first [of marker l]
      prefix_imp_sublist suffix_imp_sublist sublist_order.order.trans by blast
  then show ?thesis
    using True sublist_trim_js sublist_replace_quotes sublist_order.order.trans
    by (simp add: captionOfLine_first) blast
next
  case False
  then show ?thesis by (simp add: captionOfLine_first)
qed

lemma captionOfLine_marker_free: "\<not> includes_js (captionOfLine l) marker"
proof (cases "includes_js l marker")
  case True
  have "\<not> sublist marker (before_first marker (after_first marker l))"
    using before_first_excludes [OF marker_nonempty] by (simp add: includes_js_sublist)
  moreover have "sublist (captionOfLine l) (before_first marker (after_first marker l))"
    using True sublist_trim_js sublist_replace_quotes sublist_order.order.trans
    by (simp add: captionOfLine_first) blast
  ultimately show ?thesis
    using sublist_order.order.trans by (auto simp: includes_js_sublist)
next
  case False
  then show ?thesis by (simp add: captionOfLine_first marker_def)
qed

lemma captions_captionLines: "captions script = join_js [newline] (captionLines script)"
  by (simp add: captions_def captionLines_def)

lemma captionLines_props:
  assumes "l \<in> set (captionLines script)"
  shows "l \<noteq> []" "newline \<notin> set l" "\<not> includes_js l marker"
proof -
  from assms obtain l0 where l0: "l0 \<in> set (split_js [newline] script)" "l = captionOfLine l0"
    and ne: "l \<noteq> []"
    by (auto simp: captionLines_def)
  show "l \<noteq> []" by (rule ne)
  have "set l \<subseteq> set l0"
    unfolding l0(2) by (rule set_mono_sublist [OF sublist_captionOfLine])
  with lines_newline_free [OF l0(1)] show "newline \<notin> set l" by blast
  show "\<not> includes_js l marker"
    unfolding l0(2) by (rule captionOfLine_marker_free)
qed

lemma split_from_char_skip:
  "n \<notin> set l \<Longrightarrow> split_from [n] cur (l @ rest) = split_from [n] (cur @ l) rest"
  by (induction l arbitrary: cur) auto

lemma split_join_lines:
  assumes "ls \<noteq> []" "\<forall>l \<in> set ls. n \<notin> set l"
  shows "split_from [n] cur (join_js [n] ls) = (cur @ hd ls) # tl ls"
  using assms
proof (induction ls arbitrary: cur rule: induct_list012)
  case 1
  then show ?case by simp
next
  case (2 x)
  then show ?case
    using split_from_char_skip [of n x cur "[]"] by simp
next
  case (3 x y ys)
  have "split_from [n] cur (x @ [n] @ join_js [n] (y # ys)) =
        split_from [n] (cur @ x) (n # join_js [n] (y # ys))"
    using "3.prems" split_from_char_skip [of n x cur "n # join_js [n] (y # ys)"] by simp
  also have "\<dots> = (cur @ x) # split_from [n] [] (join_js [n] (y # ys))"
    by simp
  also have "split_from [n] [] (join_js [n] (y # ys)) = y # ys"
    using "3.IH"(2) [of "[]"] "3.prems" by simp
  finally show ?case by simp
qed

lemma split_join_newline:
  assumes "ls \<noteq> []" "\<forall>l \<in> set ls. newline \<notin> set l"
  shows "split_js [newline] (join_js [newline] ls) = ls"
  using split_join_lines [OF assms, of "[]"] assms(1) by (simp add: split_js_def)

text \<open>The lines of an extracted text: the caption lines, or one empty line.\<close>

lemma lines_of_captions:
  "split_js [newline] (captions script) =
     (if captionLines script = [] then [[]] else captionLines script)"
proof (cases "captionLines script = []")
  case True
  then show ?thesis by (simp add: captions_captionLines split_js_def)
next
  case False
  then show ?thesis
    using split_join_newline [of "captionLines script"] captionLines_props(2)
    by (auto simp: captions_captionLines)
qed

lemma captions_of_wrapped:
  assumes "\<And>l. l \<in> set (split_js [newline] (captions script)) \<Longrightarrow>
             captionOfLine (wrap l) = l \<and> includes_js (wrap l) marker \<and> newline \<notin> set (wrap l)"
  shows "captions (join_js [newline] (map wrap (split_js [newline] (captions script)))) =
         captions script"
proof -
  let ?ls = "split_js [newline] (captions script)"
  have ne: "?ls \<noteq> []" by (simp add: lines_of_captions)
  have "split_js [newline] (join_js [newline] (map wrap ?ls)) = map wrap ?ls"
    by (rule split_join_newline) (use ne assms in auto)
  moreover have "filter (\<lambda>l. includes_js l marker) (map wrap ?ls) = map wrap ?ls"
    using assms by (simp add: filter_id_conv)
  moreover have "map captionOfLine (map wrap ?ls) = ?ls"
    using assms by (simp add: map_idI)
  ultimately have "captionLines (join_js [newline] (map wrap ?ls)) = filter (\<lambda>l. l \<noteq> []) ?ls"
    by (simp add: captionLines_def)
  also have "\<dots> = captionLines script"
    using captionLines_props(1) [of _ script]
    by (auto simp: lines_of_captions filter_id_conv)
  finally show ?thesis by (simp add: captions_captionLines)
qed


lemma lines_of_captions_props:
  assumes "l \<in> set (split_js [newline] (captions script))"
  shows "\<not> includes_js l marker" "newline \<notin> set l"
proof -
  from assms have "l = [] \<or> l \<in> set (captionLines script)"
    by (auto simp: lines_of_captions split: if_splits)
  then show "\<not> includes_js l marker" "newline \<notin> set l"
    using captionLines_props [of l script] by (auto simp: marker_def)
qed

lemma includes_marker_wrapped: "includes_js (marker @ x) marker"
  by (simp add: includes_js_sublist)

lemma after_first_wrapped: "after_first marker (marker @ x) = x"
  by (simp add: marker_def)

lemma captionOfLine_wrapped:
  assumes "\<not> includes_js x marker"
  shows "captionOfLine (marker @ x) = replace_quotes (trim_js x)"
  using assms
  by (simp add: captionOfLine_first includes_marker_wrapped after_first_wrapped
      before_first_whole)

lemma quoted_marker_free:
  assumes "\<not> includes_js l marker"
  shows "\<not> includes_js (quote # l @ [quote]) marker"
proof -
  have "\<not> prefix marker (quote # l @ [quote])"
    by (simp add: marker_def quote_def)
  moreover have "\<not> suffix marker (l @ [quote])"
    using snoc_suffix_snoc [of "[0x5B, 0xC790, 0xB9C9]" "0x5D" l quote]
    by (simp add: marker_def quote_def)
  ultimately show ?thesis
    using assms by (simp add: includes_js_sublist sublist_Cons_right sublist_snoc)
qed

lemma trim_js_quoted: "trim_js (quote # l @ [quote]) = quote # l @ [quote]"
  by (simp add: trim_js_def isWhiteSpace_def quote_def)

lemma replace_quotes_quoted: "replace_quotes (quote # l @ [quote]) = l"
  by (simp add: replace_quotes_def)

lemma captionOfLine_quoted:
  assumes "\<not> includes_js l marker"
  shows "captionOfLine (marker @ quote # l @ [quote]) = l"
  using captionOfLine_wrapped [OF quoted_marker_free [OF assms]]
  by (simp add: trim_js_quoted replace_quotes_quoted)

lemmas captions_eval = captions_def captionOfLine_def split_js_def rewrap_def rewrap_quoted_def
  marker_def newline_def trim_js_def isWhiteSpace_def replace_quotes_def quote_def

text \<open>
  C8, as stated, fails. A caption inside two pairs of quotes is extracted with one pair
  left; wrapped with the marker again, the second extraction removes that pair too. A
  caption whose quotes enclose a leading space is extracted with the space, which the
  second extraction trims.
\<close>

theorem captions_rewrap_counterexample:
  "captions doubleQuoted = [0x22, 0x61, 0x22]
   \<and> rewrap (captions doubleQuoted) = marker @ [0x22, 0x61, 0x22]
   \<and> captions (rewrap (captions doubleQuoted)) = [0x61]
   \<and> captions innerSpace = [0x20, 0x61]
   \<and> rewrap (captions innerSpace) = marker @ [0x20, 0x61]
   \<and> captions (rewrap (captions innerSpace)) = [0x61]"
  by (simp add: doubleQuoted_def innerSpace_def captions_eval)

text \<open>
  C8, amended. When every line of an extracted text is wrapped again as the marker
  followed by the line in a pair of quotes, a second extraction yields the extracted
  text. With the marker alone in front of each line it does so whenever no line of the
  extracted text is changed by trimming or by the removal of quotes at its ends.
\<close>

theorem captions_rewrap_idempotent:
  "captions (rewrap_quoted (captions script)) = captions script
   \<and> ((\<forall>l \<in> set (split_js [newline] (captions script)). trim_js l = l \<and> replace_quotes l = l)
        \<longrightarrow> captions (rewrap (captions script)) = captions script)"
proof (intro conjI impI)
  show "captions (rewrap_quoted (captions script)) = captions script"
    unfolding rewrap_quoted_def
  proof (rule captions_of_wrapped)
    fix l
    assume l: "l \<in> set (split_js [newline] (captions script))"
    note p = lines_of_captions_props [OF l]
    show "captionOfLine (marker @ quote # l @ [quote]) = l
        \<and> includes_js (marker @ quote # l @ [quote]) marker
        \<and> newline \<notin> set (marker @ quote # l @ [quote])"
      using p captionOfLine_quoted [OF p(1)] includes_marker_wrapped
      by (simp add: marker_def quote_def newline_def)
  qed
next
  assume clean: "\<forall>l \<in> set (split_js [newline] (captions script)).
      trim_js l = l \<and> replace_quotes l = l"
  show "captions (rewrap (captions script)) = captions script"
    unfolding rewrap_def
  proof (rule captions_of_wrapped)
    fix l
    assume l: "l \<in> set (split_js [newline] (captions script))"
    note p = lines_of_captions_props [OF l]
    show "captionOfLine (marker @ l) = l \<and> includes_js (marker @ l) marker
        \<and> newline \<notin> set (marker @ l)"
      using p clean l captionOfLine_wrapped [OF p(1)] includes_marker_wrapped
      by (simp add: marker_def newline_def)
  qed
qed

text \<open>C8 at concrete scripts: one whose caption is clean, one with two pairs of quotes.\<close>

theorem captions_rewrap_idempotent_witness:
  "captions sampleScript = [0x62]
   \<and> rewrap_quoted [0x62] = marker @ [0x22, 0x62, 0x22]
   \<and> captions (rewrap_quoted (captions sampleScript)) = [0x62]
   \<and> split_js [newline] [0x62] = [[0x62]] \<and> trim_js [0x62] = [0x62] \<and> replace_quotes [0x62] = [0x62]
   \<and> rewrap [0x62] = marker @ [0x62]
   \<and> captions (rewrap (captions sampleScript)) = [0x62]
   \<and> captions (rewrap_quoted (captions doubleQuoted)) = [0x22, 0x61, 0x22]"
proof -
  have c: "captions sampleScript = [0x62]"
    by (simp add: sampleScript_def captions_eval)
  have d: "captions doubleQuoted = [0x22, 0x61, 0x22]"
    by (simp add: doubleQuoted_def captions_eval)
  have l: "split_js [newline] [0x62] = [[0x62]]" "trim_js [0x62] = [0x62]"
    "replace_quotes [0x62] = [0x62]"
    by (simp_all add: captions_eval)
  have r: "rewrap_quoted [0x62] = marker @ [0x22, 0x62, 0x22]" "rewrap [0x62] = marker @ [0x62]"
    by (simp_all add: captions_eval)
  from captions_rewrap_idempotent [of sampleScript] c l
  have e: "captions (rewrap_quoted (captions sampleScript)) = [0x62]"
    "captions (rewrap (captions sampleScript)) = [0x62]" by simp_all
  from captions_rewrap_idempotent [of doubleQuoted] d
  have f: "captions (rewrap_quoted (captions doubleQuoted)) = [0x22, 0x61, 0x22]" by simp
  from c r(1) e(1) l r(2) e(2) f show ?thesis by (intro conjI)
qed

end
